theory Spec2Isabelle
  imports Complex_Main "HOL-Library.Log_Nat"
begin

section \<open>Data model of \<open>src/Draggable.js\<close>\<close>

text \<open>
  A JavaScript number is an IEEE 754 double. Finite numbers are modelled as reals, and
  every addition and subtraction of the component is followed by \<open>double\<close>, the
  rounding to the nearest double with ties to even, so that the model computes what the
  code computes. Comparisons, \<open>Math.min\<close>, \<open>Math.max\<close> and \<open>Math.abs\<close> do not round.
  Not-a-number and the infinities (results of magnitude \<open>2 ^ 1024\<close> and more) are
  outside the model.
\<close>

definition roundTiesToEven :: "real \<Rightarrow> int" where
  "roundTiesToEven n =
     (let f = \<lfloor>n\<rfloor>; d = n - of_int f
      in if d < 1 / 2 then f else if 1 / 2 < d then f + 1 else if even f then f else f + 1)"

text \<open>
  The binary exponent of a positive number \<open>a\<close>, the integer \<open>e\<close> with
  \<open>2 powi e \<le> a < 2 powi (e + 1)\<close>, computed from the bit length of \<open>\<lfloor>a\<rfloor>\<close> when
  \<open>1 \<le> a\<close> and of \<open>\<lceil>1 / a\<rceil> - 1\<close> otherwise.
\<close>

definition exponent :: "real \<Rightarrow> int" where
  "exponent a =
     (if 1 \<le> a then int (floorlog 2 (nat \<lfloor>a\<rfloor>)) - 1
      else - int (floorlog 2 (nat (\<lceil>1 / a\<rceil> - 1))))"

text \<open>
  A double has 53 significant bits. For a value with binary exponent \<open>e\<close> (at least
  \<open>-1022\<close>, below which the doubles are subnormal and equally spaced) the doubles
  near it are the multiples of \<open>2 powi (e - 52)\<close>.
\<close>

definition double :: "real \<Rightarrow> real" where
  "double v =
     (if v = 0 then 0
      else let e = max (exponent \<bar>v\<bar>) (- 1022); q = 2 powi (e - 52)
           in of_int (roundTiesToEven (v / q)) * q)"

text \<open>A number is representable when rounding leaves it as it is.\<close>

definition representable :: "real \<Rightarrow> bool" where
  "representable v = (double v = v)"

text \<open>
  An object \<open>{x, y}\<close> is a pair, read with \<open>fst\<close> (the \<open>x\<close> member) and \<open>snd\<close> (the
  \<open>y\<close> member).
\<close>

type_synonym position = "real \<times> real"

text \<open>The object returned by \<open>getBounds\<close> (the member \<open>top\<close> is named \<open>top'\<close> here).\<close>

record rectangle =
  left :: real
  top' :: real
  right :: real
  bottom :: real

text \<open>The part of PanResponder's \<open>gestureState\<close> that the component reads.\<close>

record gestureState =
  dx :: real
  dy :: real

text \<open>
  The props the gesture pipeline reads. An optional bound is \<open>None\<close> when
  \<open>Number.isFinite\<close> rejects it (the prop is absent, or not a finite number).
  \<open>onReverse\<close> is \<open>None\<close> when the prop is absent; a supplied function returns
  \<open>None\<close> for \<open>undefined\<close>. \<open>onDragRelease\<close> records whether the prop is truthy
  (the default props supply a no-op function), \<open>dragHandle\<close> and \<open>afterRender\<close> whether
  the prop is supplied.
\<close>

record props =
  x :: real
  y :: real
  minX :: "real option"
  minY :: "real option"
  maxX :: "real option"
  maxY :: "real option"
  renderSize :: real
  shouldReverse :: bool
  onReverse :: "(unit \<Rightarrow> position option) option"
  disabled :: bool
  onDragRelease :: bool
  dragHandle :: bool
  afterRender :: bool

text \<open>\<open>Draggable.defaultProps\<close>, for the props modelled above.\<close>

definition defaultProps :: props where
  "defaultProps =
     \<lparr>x = 0, y = 0, minX = None, minY = None, maxX = None, maxY = None,
      renderSize = 36, shouldReverse = False, onReverse = None, disabled = False,
      onDragRelease = True, dragHandle = False, afterRender = False\<rparr>"

text \<open>
  The configuration object the component hands to \<open>Animated.spring\<close>, and whether
  \<open>start\<close> was given a completion function that calls a user callback. \<open>toValue\<close> is
  \<open>None\<close> when the value handed over is \<open>undefined\<close>.
\<close>

record springConfig =
  toValue :: "position option"
  restDisplacementThreshold :: "real option"
  restSpeedThreshold :: "real option"
  callback :: bool

text \<open>
  Modelled from the spec: the Position Animator (React Native's \<open>Animated.ValueXY\<close>),
  which is not under \<open>src/\<close>. It holds the two parts of the representation, the
  value that \<open>setValue\<close> writes and the offset that \<open>setOffset\<close> writes; their sum is
  what listeners and the layout observe. It also holds whether the component's
  listener is subscribed, and the spring transition in flight, if any.
\<close>

record animated =
  animValue :: position
  animOffset :: position
  listening :: bool
  spring :: "springConfig option"

text \<open>The callbacks the component invokes, with the geometry it passes to them.\<close>

datatype callbackCall =
    OnDrag gestureState rectangle rectangle
  | OnDragRelease gestureState "rectangle option" rectangle
  | OnRelease bool
  | OnShortPressRelease
  | OnLongPress
  | OnPressIn
  | OnPressOut
  | AfterRender
  | AnimateToCallback

text \<open>
  The refs of one mounted component (\<open>pan\<close>, \<open>offsetFromStart\<close>, \<open>childSize\<close>,
  \<open>startBounds\<close>, \<open>isDragging\<close>), and the callbacks invoked so far, oldest first.
  \<open>startBounds\<close> is \<open>None\<close> while the ref is \<open>undefined\<close>.
\<close>

record state =
  pan :: animated
  offsetFromStart :: position
  childSize :: position
  startBounds :: "rectangle option"
  isDragging :: bool
  calls :: "callbackCall list"

datatype error = TypeError

section \<open>The Position Animator\<close>

text \<open>Modelled from the spec: the observable value, the sum of the two parts.\<close>

definition flattened :: "animated \<Rightarrow> position" where
  "flattened a =
     (double (fst (animValue a) + fst (animOffset a)),
      double (snd (animValue a) + snd (animOffset a)))"

text \<open>Modelled from the spec: \<open>new Animated.ValueXY()\<close>, the animator at rest at the origin.\<close>

definition newValueXY :: animated where
  "newValueXY =
     \<lparr>animValue = (0, 0), animOffset = (0, 0), listening = False, spring = None\<rparr>"

text \<open>
  Modelled from the spec: \<open>setOffset\<close> writes the offset part and notifies nobody.
\<close>

definition setOffset :: "position \<Rightarrow> animated \<Rightarrow> animated" where
  "setOffset v a = a\<lparr>animOffset := v\<rparr>"

text \<open>
  Modelled from the spec: \<open>flatten\<close> (\<open>flattenOffset\<close> in the source) merges the two
  parts: the value becomes the sum observed before the call and the offset is reset to
  zero, so that the observable value does not jump. It notifies nobody.
\<close>

definition flattenOffset :: "animated \<Rightarrow> animated" where
  "flattenOffset a = a\<lparr>animValue := flattened a, animOffset := (0, 0)\<rparr>"

text \<open>
  Modelled from the spec: \<open>subscribe\<close> (\<open>addListener\<close> in the source). The effect's
  cleanup, which removes the listener, runs when the component is torn down and is
  not part of a run.
\<close>

definition addListener :: "animated \<Rightarrow> animated" where
  "addListener a = a\<lparr>listening := True\<rparr>"

text \<open>
  Modelled from the spec: \<open>springTo\<close> (\<open>Animated.spring(...).start(...)\<close> in the source)
  replaces the transition in flight. The configuration is recorded as the component
  handed it over.
\<close>

definition springStart :: "springConfig \<Rightarrow> animated \<Rightarrow> animated" where
  "springStart c a = a\<lparr>spring := Some c\<rparr>"

text \<open>
  The listener the component registers in its effect,
  \<open>(c) => { offsetFromStart.current = c; }\<close>, run on a change of the value when the
  subscription is active. The animator reports the two coordinates one after the
  other; nothing reads the ref in between, so one notification stands for both.
\<close>

definition notifyListener :: "state \<Rightarrow> state" where
  "notifyListener s =
     (if listening (pan s) then s\<lparr>offsetFromStart := flattened (pan s)\<rparr> else s)"

text \<open>
  Modelled from the spec: \<open>setInstant\<close> (\<open>setValue\<close> in the source) writes the value
  at once, supersedes a transition in flight and notifies the subscription.
\<close>

definition setValue :: "position \<Rightarrow> state \<Rightarrow> state" where
  "setValue v s = notifyListener (s\<lparr>pan := (pan s)\<lparr>animValue := v, spring := None\<rparr>\<rparr>)"

text \<open>
  Modelled from the spec: one tick of a transition in flight writes an intermediate
  value chosen by the spring and notifies the subscription; at rest the transition
  ends and its completion function runs once.
\<close>

definition springFrame :: "position \<Rightarrow> state \<Rightarrow> state" where
  "springFrame v s =
     (case spring (pan s) of
        None \<Rightarrow> s
      | Some c \<Rightarrow> notifyListener (s\<lparr>pan := (pan s)\<lparr>animValue := v\<rparr>\<rparr>))"

definition springRest :: "state \<Rightarrow> state" where
  "springRest s =
     (case spring (pan s) of
        None \<Rightarrow> s
      | Some c \<Rightarrow>
          (let s1 = s\<lparr>pan := (pan s)\<lparr>spring := None\<rparr>\<rparr>
           in if callback c then s1\<lparr>calls := calls s1 @ [AnimateToCallback]\<rparr> else s1))"

section \<open>The component's functions\<close>

definition clamp :: "real \<Rightarrow> real \<Rightarrow> real \<Rightarrow> real" where
  "clamp number mn mx = max mn (min number mx)"

definition getBounds :: "props \<Rightarrow> state \<Rightarrow> rectangle" where
  "getBounds p s =
     (let l = double (x p + fst (offsetFromStart s));
          t = double (y p + snd (offsetFromStart s))
      in \<lparr>left = l, top' = t,
          right = double (l + fst (childSize s)),
          bottom = double (t + snd (childSize s))\<rparr>)"

definition shouldStartDrag :: "props \<Rightarrow> gestureState \<Rightarrow> bool" where
  "shouldStartDrag p gs = (\<not> disabled p \<and> (\<bar>dx gs\<bar> > 2 \<or> \<bar>dy gs\<bar> > 2))"

definition originalOffset :: position where
  "originalOffset = (0, 0)"

text \<open>The local \<open>newOffset\<close> of \<open>reversePosition\<close>.\<close>

definition newOffset :: "props \<Rightarrow> position option" where
  "newOffset p = (case onReverse p of Some f \<Rightarrow> f () | None \<Rightarrow> Some originalOffset)"

definition reversePosition :: "props \<Rightarrow> state \<Rightarrow> state" where
  "reversePosition p s =
     s\<lparr>pan := springStart
        \<lparr>toValue = Some (case newOffset p of Some v \<Rightarrow> v | None \<Rightarrow> originalOffset),
         restDisplacementThreshold = None, restSpeedThreshold = None,
         callback = False\<rparr> (pan s)\<rparr>"

text \<open>\<open>animateTo(offset, callback)\<close>; the second argument tells whether a callback was given.\<close>

definition animateTo :: "position option \<Rightarrow> bool \<Rightarrow> state \<Rightarrow> state" where
  "animateTo offset cb s =
     s\<lparr>pan := springStart
        \<lparr>toValue = offset,
         restDisplacementThreshold = Some 1, restSpeedThreshold = Some 1,
         callback = cb\<rparr> (pan s)\<rparr>"

definition onPanResponderRelease :: "props \<Rightarrow> gestureState \<Rightarrow> state \<Rightarrow> state" where
  "onPanResponderRelease p gs s =
     (let s1 = s\<lparr>isDragging := False\<rparr>;
          s2 = (if \<not> shouldReverse p then s1\<lparr>pan := flattenOffset (pan s1)\<rparr>
                else reversePosition p s1)
      in if onDragRelease p
         then s2\<lparr>calls := calls s2 @
                 [OnDragRelease gs (startBounds s2) (getBounds p s2), OnRelease True]\<rparr>
         else s2)"

definition onPanResponderGrant :: "props \<Rightarrow> gestureState \<Rightarrow> state \<Rightarrow> state" where
  "onPanResponderGrant p gs s =
     (let s1 = s\<lparr>startBounds := Some (getBounds p s)\<rparr>;
          s2 = s1\<lparr>isDragging := True\<rparr>
      in if \<not> shouldReverse p
         then setValue (0, 0) (s2\<lparr>pan := setOffset (offsetFromStart s2) (pan s2)\<rparr>)
         else s2)"

definition far :: real where
  "far = 999999999"

text \<open>The locals \<open>changeX\<close> and \<open>changeY\<close> of \<open>handleOnDrag\<close>, for the start rectangle \<open>b\<close>.\<close>

definition changeX :: "props \<Rightarrow> rectangle \<Rightarrow> gestureState \<Rightarrow> real" where
  "changeX p b gs =
     clamp (dx gs)
       (case minX p of Some m \<Rightarrow> double (m - left b) | None \<Rightarrow> - far)
       (case maxX p of Some m \<Rightarrow> double (m - right b) | None \<Rightarrow> far)"

definition changeY :: "props \<Rightarrow> rectangle \<Rightarrow> gestureState \<Rightarrow> real" where
  "changeY p b gs =
     clamp (dy gs)
       (case minY p of Some m \<Rightarrow> double (m - top' b) | None \<Rightarrow> - far)
       (case maxY p of Some m \<Rightarrow> double (m - bottom b) | None \<Rightarrow> far)"

text \<open>
  \<open>handleOnDrag\<close>: destructuring \<open>startBounds.current\<close> throws a TypeError while the
  ref is \<open>undefined\<close>.
\<close>

definition handleOnDrag :: "props \<Rightarrow> gestureState \<Rightarrow> state \<Rightarrow> error + state" where
  "handleOnDrag p gs s =
     (case startBounds s of
        None \<Rightarrow> Inl TypeError
      | Some b \<Rightarrow>
          (let s1 = setValue (changeX p b gs, changeY p b gs) s
           in Inr (s1\<lparr>calls := calls s1 @ [OnDrag gs b (getBounds p s1)]\<rparr>)))"

definition handleOnLayout :: "real \<Rightarrow> real \<Rightarrow> state \<Rightarrow> state" where
  "handleOnLayout width height s = s\<lparr>childSize := (width, height)\<rparr>"

definition handlePressOut :: "state \<Rightarrow> state" where
  "handlePressOut s =
     (let s1 = s\<lparr>calls := calls s @ [OnPressOut]\<rparr>
      in if \<not> isDragging s1 then s1\<lparr>calls := calls s1 @ [OnRelease False]\<rparr> else s1)"

text \<open>The refs as the first render creates them.\<close>

definition initial :: "props \<Rightarrow> state" where
  "initial p =
     \<lparr>pan = newValueXY, offsetFromStart = (0, 0),
      childSize = (renderSize p, renderSize p), startBounds = None,
      isDragging = False, calls = []\<rparr>"

text \<open>The effect that runs after the first render (\<open>React.useEffect\<close>, lines 184 to 201).\<close>

definition mount :: "props \<Rightarrow> state" where
  "mount p =
     (let s0 = initial p;
          s1 = (if afterRender p then s0\<lparr>calls := calls s0 @ [AfterRender]\<rparr> else s0)
      in if \<not> shouldReverse p then s1\<lparr>pan := addListener (pan s1)\<rparr>
         else reversePosition p s1)"

section \<open>Events delivered to a mounted component\<close>

text \<open>
  What the host can deliver to the handlers the component renders: the three
  PanResponder handlers, the layout callback, the touchable's press callbacks, a call
  of the exposed \<open>animateTo\<close>, and the ticks and the end of a spring in flight.
  \<open>Animated.spring\<close> reads the members \<open>x\<close> and \<open>y\<close> of the \<open>toValue\<close> it is handed, which
  throws a TypeError when \<open>toValue\<close> is \<open>undefined\<close>: a call of \<open>animateTo\<close> with an
  \<open>undefined\<close> target ends in that exception before any spring is started.
\<close>

datatype event =
    Grant gestureState
  | Move gestureState
  | Release gestureState
  | Layout real real
  | PressIn
  | PressOut
  | Press
  | LongPress
  | AnimateTo "position option" bool
  | SpringFrame position
  | SpringRest

fun step :: "props \<Rightarrow> event \<Rightarrow> state \<Rightarrow> error + state" where
  "step p (Grant gs) s = Inr (onPanResponderGrant p gs s)"
| "step p (Move gs) s = handleOnDrag p gs s"
| "step p (Release gs) s = Inr (onPanResponderRelease p gs s)"
| "step p (Layout w h) s = Inr (handleOnLayout w h s)"
| "step p PressIn s = Inr (s\<lparr>calls := calls s @ [OnPressIn]\<rparr>)"
| "step p PressOut s = Inr (handlePressOut s)"
| "step p Press s = Inr (s\<lparr>calls := calls s @ [OnShortPressRelease]\<rparr>)"
| "step p LongPress s = Inr (s\<lparr>calls := calls s @ [OnLongPress]\<rparr>)"
| "step p (AnimateTo None cb) s = Inl TypeError"
| "step p (AnimateTo (Some v) cb) s = Inr (animateTo (Some v) cb s)"
| "step p (SpringFrame v) s = Inr (springFrame v s)"
| "step p SpringRest s = Inr (springRest s)"

text \<open>Events are handled one after the other; an exception ends the run.\<close>

fun exec :: "props \<Rightarrow> event list \<Rightarrow> state \<Rightarrow> error + state" where
  "exec p [] s = Inr s"
| "exec p (e # es) s = (case step p e s of Inl err \<Rightarrow> Inl err | Inr s' \<Rightarrow> exec p es s')"

definition run :: "props \<Rightarrow> event list \<Rightarrow> error + state" where
  "run p es = exec p es (mount p)"

section \<open>Gestures\<close>

text \<open>
  Modelled from the spec: the host's gesture source (React Native's responder system,
  PanResponder and the touchable), which is not under \<open>src/\<close>. A gesture is a touch-down,
  a sequence of happenings while the touch lasts, and a touch-up. A happening is a
  movement, with the gesture state PanResponder reports for it (the movement since
  touch-down until the grant, the movement since the grant after it), or the expiry of
  the touchable's long-press delay.
\<close>

datatype touch = Moved gestureState | Held

fun movements :: "touch list \<Rightarrow> gestureState list" where
  "movements [] = []"
| "movements (Moved m # ts) = m # movements ts"
| "movements (Held # ts) = movements ts"

text \<open>
  After the grant every movement is delivered to \<open>handleOnDrag\<close> and the touch-up is
  delivered as the release, with the gesture state of the last movement.
\<close>

fun dragging :: "gestureState \<Rightarrow> touch list \<Rightarrow> event list" where
  "dragging g [] = [Release g]"
| "dragging g (Moved m # ts) = Move m # dragging m ts"
| "dragging g (Held # ts) = dragging g ts"

text \<open>
  With the touchable rendered and enabled: it reports press-in at touch-down (see
  \<open>gesture\<close>) and the long press when the delay expires. The first movement that
  \<open>shouldStartDrag\<close> accepts makes the gesture a drag: the grant is delivered with the
  gesture state reset to zero, and the touchable loses the touch and reports press-out.
  A gesture that never becomes a drag ends with the touchable's press-out, and with
  its press unless the long press was reported (\<open>onLongPress\<close> is always a function, by
  the default props, and a reported long press cancels the press). The flag tells
  whether the long press was reported.
\<close>

fun pressing :: "props \<Rightarrow> bool \<Rightarrow> touch list \<Rightarrow> event list" where
  "pressing p long [] = (if long then [PressOut] else [PressOut, Press])"
| "pressing p long (Held # ts) =
     (if long then pressing p long ts else LongPress # pressing p True ts)"
| "pressing p long (Moved m # ts) =
     (if shouldStartDrag p m
      then Grant \<lparr>dx = 0, dy = 0\<rparr> # PressOut # dragging \<lparr>dx = 0, dy = 0\<rparr> ts
      else pressing p long ts)"

text \<open>Without a touchable only PanResponder's handlers are reached.\<close>

fun panning :: "props \<Rightarrow> touch list \<Rightarrow> event list" where
  "panning p [] = []"
| "panning p (Held # ts) = panning p ts"
| "panning p (Moved m # ts) =
     (if shouldStartDrag p m
      then Grant \<lparr>dx = 0, dy = 0\<rparr> # dragging \<lparr>dx = 0, dy = 0\<rparr> ts
      else panning p ts)"

text \<open>
  The component renders the touchable with \<open>disabled={disabled}\<close>, and a disabled
  touchable reports nothing; with a \<open>dragHandle\<close> it renders no touchable at all and
  hands the PanResponder to the handle.
\<close>

definition gesture :: "props \<Rightarrow> touch list \<Rightarrow> event list" where
  "gesture p ts =
     (if disabled p \<or> dragHandle p then panning p ts else PressIn # pressing p False ts)"

section \<open>The contract of the Bounds Tracker\<close>

text \<open>
  The spec's \<open>currentRectangle(basePosition, accumulatedOffset, size)\<close>, written from its
  words (\<open>left\<close> is the sum of the base and the offset, \<open>right\<close> is \<open>left\<close> plus the
  width) in the same arithmetic, to compare with \<open>getBounds\<close>.
\<close>

definition currentRectangle :: "position \<Rightarrow> position \<Rightarrow> position \<Rightarrow> rectangle" where
  "currentRectangle basePosition accumulatedOffset size' =
     (let l = double (fst basePosition + fst accumulatedOffset);
          t = double (snd basePosition + snd accumulatedOffset)
      in \<lparr>left = l, top' = t,
          right = double (l + fst size'), bottom = double (t + snd size')\<rparr>)"

text \<open>The rectangles a callback receives, and the sizes the layout callback reported.\<close>

fun reported :: "callbackCall \<Rightarrow> rectangle list" where
  "reported (OnDrag gs b c) = [b, c]"
| "reported (OnDragRelease gs None c) = [c]"
| "reported (OnDragRelease gs (Some b) c) = [b, c]"
| "reported other = []"

fun measured :: "event list \<Rightarrow> position list" where
  "measured [] = []"
| "measured (Layout w h # es) = (w, h) # measured es"
| "measured (e # es) = measured es"

fun isGrant :: "event \<Rightarrow> bool" where
  "isGrant (Grant gs) = True"
| "isGrant e = False"

fun isDragRelease :: "callbackCall \<Rightarrow> bool" where
  "isDragRelease (OnDragRelease gs b c) = True"
| "isDragRelease other = False"

text \<open>
  The events that write the animator's value: a move of a drag, \<open>animateTo\<close> and the
  frames of a spring.
\<close>

fun isMotion :: "event \<Rightarrow> bool" where
  "isMotion (Move gs) = True"
| "isMotion (AnimateTo t cb) = True"
| "isMotion (SpringFrame v) = True"
| "isMotion SpringRest = True"
| "isMotion e = False"

text \<open>
  The calls made from the touchable's handlers: \<open>onPressIn\<close>, \<open>onLongPress\<close>,
  \<open>onShortPressRelease\<close>, and from \<open>handlePressOut\<close> \<open>onPressOut\<close> and \<open>onRelease(event, false)\<close>.
\<close>

fun isPressCall :: "callbackCall \<Rightarrow> bool" where
  "isPressCall OnPressIn = True"
| "isPressCall OnPressOut = True"
| "isPressCall OnLongPress = True"
| "isPressCall OnShortPressRelease = True"
| "isPressCall (OnRelease dragged) = (\<not> dragged)"
| "isPressCall other = False"

section \<open>Properties\<close>

subsection \<open>Rounding\<close>

lemma exponent_bounds:
  assumes "0 < a"
  shows "2 powi exponent a \<le> a \<and> a < 2 powi (exponent a + 1)"
proof (cases "1 \<le> a")
  case True
  define n where "n = nat \<lfloor>a\<rfloor>"
  define j where "j = floorlog 2 n"
  have n1: "0 < n" using True by (simp add: n_def)
  have b: "2 ^ (j - 1) \<le> n" "n < 2 ^ j"
    using floorlog_bounds [of n 2] n1 by (simp_all add: j_def)
  have j1: "0 < j" using b(2) n1 by (cases j) simp_all
  have na: "real n \<le> a" "a < real n + 1" using True by (simp_all add: n_def)
  have "(2::real) ^ (j - 1) = real (2 ^ (j - 1))" by simp
  also have "\<dots> \<le> real n" using b(1) by (rule of_nat_mono)
  also have "\<dots> \<le> a" by (rule na(1))
  finally have lo: "2 ^ (j - 1) \<le> a" .
  have "n + 1 \<le> 2 ^ j" using b(2) by simp
  then have "real (n + 1) \<le> real (2 ^ j)" by (rule of_nat_mono)
  moreover have "a < real (n + 1)" using na(2) by simp
  moreover have "real (2 ^ j) = 2 ^ j" by simp
  ultimately have hi: "a < 2 ^ j" by linarith
  have e: "exponent a = int j - 1" using True by (simp add: exponent_def n_def j_def)
  have "(2::real) powi (int j - 1) = 2 ^ (j - 1)"
    using j1 by (simp add: power_int_def nat_diff_distrib')
  moreover have "(2::real) powi (int j - 1 + 1) = 2 ^ j" by (simp add: power_int_def)
  ultimately show ?thesis using lo hi e by simp
next
  case False
  define t where "t = 1 / a"
  have t1: "1 < t" using False assms by (simp add: t_def)
  define n where "n = nat (\<lceil>t\<rceil> - 1)"
  define j where "j = floorlog 2 n"
  have c2: "2 \<le> \<lceil>t\<rceil>" using t1 by (simp add: le_ceiling_iff)
  have n1: "0 < n" using c2 by (simp add: n_def)
  have nc: "int n = \<lceil>t\<rceil> - 1" using c2 by (simp add: n_def)
  have b: "2 ^ (j - 1) \<le> n" "n < 2 ^ j"
    using floorlog_bounds [of n 2] n1 by (simp_all add: j_def)
  have j1: "0 < j" using b(2) n1 by (cases j) simp_all
  have "int (2 ^ (j - 1)) \<le> int n" using b(1) by (rule of_nat_mono)
  moreover have "int (2 ^ (j - 1)) = 2 ^ (j - 1)" by simp
  ultimately have "2 ^ (j - 1) < \<lceil>t\<rceil>" using nc by linarith
  then have lo: "2 ^ (j - 1) < t" by (simp add: less_ceiling_iff)
  have "int n < int (2 ^ j)" using b(2) by (rule of_nat_less_iff [THEN iffD2])
  moreover have "int (2 ^ j) = 2 ^ j" by simp
  ultimately have "\<lceil>t\<rceil> \<le> 2 ^ j" using nc by linarith
  then have hi: "t \<le> 2 ^ j" by (simp add: ceiling_le_iff)
  have e: "exponent a = - int j" using False by (simp add: exponent_def n_def j_def t_def)
  have p1: "(2::real) powi (- int j) = 1 / 2 ^ j"
    by (simp add: power_int_minus inverse_eq_divide)
  have p2: "(2::real) powi (- int j + 1) = 1 / 2 ^ (j - 1)"
  proof -
    have "- int j + 1 = - int (j - 1)" using j1 by simp
    then have "(2::real) powi (- int j + 1) = 2 powi (- int (j - 1))" by (simp only:)
    then show ?thesis by (simp add: power_int_minus inverse_eq_divide)
  qed
  have "1 / 2 ^ j \<le> a"
  proof -
    have "1 / 2 ^ j \<le> 1 / t" using hi t1 by (intro divide_left_mono) simp_all
    then show ?thesis using assms by (simp add: t_def)
  qed
  moreover have "a < 1 / 2 ^ (j - 1)"
  proof -
    have "1 / t < 1 / 2 ^ (j - 1)" using lo t1 by (intro divide_strict_left_mono) simp_all
    then show ?thesis using assms by (simp add: t_def)
  qed
  ultimately show ?thesis using e p1 p2 by simp
qed

lemma exponent_unique:
  assumes "2 powi e \<le> a" and "a < 2 powi (e + 1)"
  shows "exponent a = e"
proof -
  have "(0::real) < 2 powi e" by (rule zero_less_power_int) simp
  with assms(1) have a0: "0 < a" by linarith
  note b = exponent_bounds [OF a0]
  have "e < exponent a + 1"
  proof (rule ccontr)
    assume "\<not> e < exponent a + 1"
    then have "(2::real) powi (exponent a + 1) \<le> 2 powi e" by (intro power_int_increasing) simp_all
    with assms(1) b show False by linarith
  qed
  moreover have "exponent a < e + 1"
  proof (rule ccontr)
    assume "\<not> exponent a < e + 1"
    then have "(2::real) powi (e + 1) \<le> 2 powi exponent a" by (intro power_int_increasing) simp_all
    with assms(2) b show False by linarith
  qed
  ultimately show ?thesis by simp
qed

lemma exponent_log: "0 < a \<Longrightarrow> exponent a = \<lfloor>log 2 a\<rfloor>"
proof -
  assume a: "0 < a"
  note b = exponent_bounds [OF a]
  have p: "(2::real) powr of_int k = 2 powi k" for k by (simp add: powr_real_of_int')
  have "of_int (exponent a) \<le> log 2 a" using b a by (simp add: le_log_iff p)
  moreover have "log 2 a < of_int (exponent a) + 1"
  proof -
    have "a < 2 powr of_int (exponent a + 1)" using b by (simp only: p)
    then show ?thesis using a by (simp add: log_less_iff)
  qed
  ultimately have "\<lfloor>log 2 a\<rfloor> = exponent a" by (simp add: floor_eq_iff)
  then show ?thesis by simp
qed

lemma roundTiesToEven_of_int: "roundTiesToEven (of_int j) = j"
  by (simp add: roundTiesToEven_def)

lemma double_of_int:
  assumes "\<bar>i\<bar> < 2 ^ 53"
  shows "double (of_int i) = of_int i"
proof (cases "i = 0")
  case True
  then show ?thesis by (simp add: double_def)
next
  case False
  define a :: real where "a = \<bar>of_int i\<bar>"
  have a1: "1 \<le> a" using False by (simp add: a_def)
  have a2: "a < 2 powi 53"
  proof -
    have "real_of_int \<bar>i\<bar> < real_of_int (2 ^ 53)" using assms by (simp only: of_int_less_iff)
    then show ?thesis by (simp add: a_def)
  qed
  define e where "e = exponent a"
  have b: "2 powi e \<le> a" "a < 2 powi (e + 1)"
    using exponent_bounds [of a] a1 by (simp_all add: e_def)
  have e0: "0 \<le> e"
  proof (rule ccontr)
    assume "\<not> 0 \<le> e"
    then have "(2::real) powi (e + 1) \<le> 2 powi 0" by (intro power_int_increasing) simp_all
    with b(2) a1 show False by simp
  qed
  have e52: "e \<le> 52"
  proof (rule ccontr)
    assume "\<not> e \<le> 52"
    then have "(2::real) powi 53 \<le> 2 powi e" by (intro power_int_increasing) simp_all
    with b(1) a2 show False by linarith
  qed
  define k where "k = nat (52 - e)"
  have q: "(2::real) powi (e - 52) = 1 / 2 ^ k"
  proof -
    have "e - 52 = - int k" using e52 by (simp add: k_def)
    then have "(2::real) powi (e - 52) = 2 powi (- int k)" by (simp only:)
    then show ?thesis by (simp add: power_int_minus inverse_eq_divide)
  qed
  have m: "max e (- 1022) = e" using e0 by simp
  have "of_int i / (1 / (2::real) ^ k) = of_int (i * 2 ^ k)" by simp
  then have r: "roundTiesToEven (of_int i / (1 / 2 ^ k)) = i * 2 ^ k"
    by (simp only: roundTiesToEven_of_int)
  have "double (of_int i) = of_int (roundTiesToEven (of_int i / (1 / 2 ^ k))) * (1 / 2 ^ k)"
    using False m q by (simp add: double_def Let_def e_def [symmetric] a_def [symmetric])
  also have "\<dots> = of_int i" by (simp only: r) simp
  finally show ?thesis .
qed

lemma double_0 [simp]: "double 0 = 0"
  by (simp add: double_def)

lemma double_1 [simp]: "double 1 = 1"
  using double_of_int [of 1] by simp

lemma double_numeral [simp]:
  "(numeral n :: int) < 9007199254740992 \<Longrightarrow> double (numeral n) = numeral n"
  using double_of_int [of "numeral n"] by simp

lemma double_neg_numeral [simp]:
  "(numeral n :: int) < 9007199254740992 \<Longrightarrow> double (- numeral n) = - numeral n"
  using double_of_int [of "- numeral n"] by simp

lemma double_half_to_one:
  assumes "1 / 2 \<le> \<bar>v\<bar>" and "\<bar>v\<bar> < 1"
  shows "double v = of_int (roundTiesToEven (v * 9007199254740992)) / 9007199254740992"
proof -
  have a: "(2::real) powi (- 1) = 1 / 2" by (simp add: power_int_minus inverse_eq_divide)
  have h1: "2 powi (- 1) \<le> \<bar>v\<bar>" using assms(1) by (simp only: a)
  have h2: "\<bar>v\<bar> < 2 powi (- 1 + 1)" using assms(2) by simp
  have e: "exponent \<bar>v\<bar> = - 1" using h1 h2 by (rule exponent_unique)
  have c: "(2::real) powi (- 1 - 52) = 1 / 9007199254740992"
    by (simp add: power_int_minus inverse_eq_divide)
  have "v \<noteq> 0" using assms(1) by auto
  then have "double v = of_int (roundTiesToEven (v / 2 powi (- 1 - 52))) * 2 powi (- 1 - 52)"
    by (simp add: double_def Let_def e)
  then show ?thesis by (simp only: c) simp
qed

















subsection \<open>Auxiliary facts\<close>

lemmas component_defs =
  onPanResponderGrant_def onPanResponderRelease_def handleOnDrag_def handleOnLayout_def
  handlePressOut_def reversePosition_def animateTo_def getBounds_def mount_def initial_def
  setValue_def notifyListener_def setOffset_def flattenOffset_def addListener_def
  springStart_def springFrame_def springRest_def newValueXY_def flattened_def







lemma exec_append:
  "exec p (es @ fs) s = (case exec p es s of Inl err \<Rightarrow> Inl err | Inr s' \<Rightarrow> exec p fs s')"
  by (induction es arbitrary: s) (auto split: sum.splits)

subsection \<open>Clamp Policy\<close>




text \<open>
  The exactness of the subtraction is needed. With \<open>minX\<close> the double nearest to 0.9, a
  rectangle whose left edge is the double nearest to 0.2 and the delta \<open>{-1000, 0}\<close>, the
  difference \<open>minX - left\<close> is not representable: the clamped delta is the double nearest
  to 0.7, and the moved left edge, rounded once more, is the double just below \<open>minX\<close>.
\<close>

lemma clamp_rounding:
  "representable (8106479329266893 / 9007199254740992) \<and>
   \<not> representable (8106479329266893 / 9007199254740992 - 3602879701896397 / 18014398509481984) \<and>
   changeX (defaultProps\<lparr>minX := Some (8106479329266893 / 9007199254740992)\<rparr>)
     \<lparr>left = 3602879701896397 / 18014398509481984, top' = 0,
      right = 2547348539231437 / 70368744177664, bottom = 36\<rparr>
     \<lparr>dx = - 1000, dy = 0\<rparr> = 6305039478318694 / 9007199254740992 \<and>
   double (3602879701896397 / 18014398509481984 + 6305039478318694 / 9007199254740992) =
     8106479329266892 / 9007199254740992"
  by (simp add: changeX_def clamp_def far_def defaultProps_def representable_def
      double_half_to_one roundTiesToEven_def)

text \<open>
  C2, as the code has it. An absent bound is the finite sentinel \<open>far = 999999999\<close> (or its
  negation), not an infinity: on an axis with no bound the delta is returned unchanged
  when its magnitude is at most \<open>far\<close>, and limited to the sentinel beyond it.
\<close>

theorem no_bound_passthrough:
  "far = 999999999 \<and>
   (minX p = None \<and> maxX p = None \<and> \<bar>dx gs\<bar> \<le> far \<longrightarrow> changeX p b gs = dx gs) \<and>
   (minY p = None \<and> maxY p = None \<and> \<bar>dy gs\<bar> \<le> far \<longrightarrow> changeY p b gs = dy gs) \<and>
   (minX p = None \<and> maxX p = None \<longrightarrow> changeX p b gs = max (- far) (min (dx gs) far)) \<and>
   (minY p = None \<and> maxY p = None \<longrightarrow> changeY p b gs = max (- far) (min (dy gs) far))"
  by (auto simp: changeX_def changeY_def clamp_def far_def)

text \<open>The theorem above at the default props (no bounds) and the delta \<open>{80, -20}\<close>.\<close>

theorem no_bound_passthrough_witness:
  "minX defaultProps = None \<and> maxX defaultProps = None \<and>
   minY defaultProps = None \<and> maxY defaultProps = None \<and>
   \<bar>dx \<lparr>dx = 80, dy = - 20\<rparr>\<bar> \<le> far \<and> \<bar>dy \<lparr>dx = 80, dy = - 20\<rparr>\<bar> \<le> far \<and>
   changeX defaultProps \<lparr>left = 0, top' = 0, right = 36, bottom = 36\<rparr> \<lparr>dx = 80, dy = - 20\<rparr> = 80 \<and>
   changeY defaultProps \<lparr>left = 0, top' = 0, right = 36, bottom = 36\<rparr> \<lparr>dx = 80, dy = - 20\<rparr> = - 20"
  using no_bound_passthrough [of defaultProps "\<lparr>dx = 80, dy = - 20\<rparr>"
      "\<lparr>left = 0, top' = 0, right = 36, bottom = 36\<rparr>"]
  by (simp add: defaultProps_def far_def)

text \<open>
  C2 as stated fails for a finite delta beyond the sentinel: with no bounds, the delta
  1000000000 is limited to 999999999.
\<close>

theorem no_bound_passthrough_counterexample:
  "minX defaultProps = None \<and> maxX defaultProps = None \<and>
   changeX defaultProps \<lparr>left = 0, top' = 0, right = 36, bottom = 36\<rparr>
     \<lparr>dx = 1000000000, dy = 0\<rparr> = 999999999"
  by (simp add: changeX_def defaultProps_def clamp_def far_def)

text \<open>
  C3. Base \<open>{0, 0}\<close>, size 36, only \<open>maxX = 100\<close>: after the grant the start rectangle has
  \<open>right = 36\<close>, and the move \<open>{80, 0}\<close> writes the clamped delta \<open>{64, 0}\<close> into the
  animator, 64 being \<open>100 - 36\<close>.
\<close>

theorem scenario_maxX_100:
  "run (defaultProps\<lparr>maxX := Some 100\<rparr>)
       [Grant \<lparr>dx = 0, dy = 0\<rparr>, Move \<lparr>dx = 80, dy = 0\<rparr>] =
     Inr \<lparr>pan = \<lparr>animValue = (64, 0), animOffset = (0, 0), listening = True, spring = None\<rparr>,
          offsetFromStart = (64, 0), childSize = (36, 36),
          startBounds = Some \<lparr>left = 0, top' = 0, right = 36, bottom = 36\<rparr>,
          isDragging = True,
          calls = [OnDrag \<lparr>dx = 80, dy = 0\<rparr>
                     \<lparr>left = 0, top' = 0, right = 36, bottom = 36\<rparr>
                     \<lparr>left = 64, top' = 0, right = 100, bottom = 36\<rparr>]\<rparr> \<and>
   changeX (defaultProps\<lparr>maxX := Some 100\<rparr>)
     \<lparr>left = 0, top' = 0, right = 36, bottom = 36\<rparr> \<lparr>dx = 80, dy = 0\<rparr> = 100 - 36 \<and>
   changeY (defaultProps\<lparr>maxX := Some 100\<rparr>)
     \<lparr>left = 0, top' = 0, right = 36, bottom = 36\<rparr> \<lparr>dx = 80, dy = 0\<rparr> = 0"
  by (simp add: run_def component_defs defaultProps_def changeX_def changeY_def clamp_def
      far_def Let_def)

subsection \<open>Release\<close>

lemma exec_moves_drag:
  assumes "listening (pan s)" and "startBounds s = Some b"
  shows "\<exists>s'. exec p (map Move ms) s = Inr s' \<and> listening (pan s') \<and>
           startBounds s' = Some b \<and> animOffset (pan s') = animOffset (pan s) \<and>
           childSize s' = childSize s \<and> isDragging s' = isDragging s"
  using assms
proof (induction ms arbitrary: s)
  case Nil
  then show ?case by simp
next
  case (Cons m ms)
  obtain s1 where s1: "step p (Move m) s = Inr s1" "listening (pan s1)" "startBounds s1 = Some b"
    "animOffset (pan s1) = animOffset (pan s)" "childSize s1 = childSize s"
    "isDragging s1 = isDragging s"
    using Cons.prems by (simp add: handleOnDrag_def setValue_def notifyListener_def Let_def)
  from Cons.IH [OF s1(2) s1(3)] obtain s' where
    "exec p (map Move ms) s1 = Inr s'" "listening (pan s')" "startBounds s' = Some b"
    "animOffset (pan s') = animOffset (pan s1)" "childSize s' = childSize s1"
    "isDragging s' = isDragging s1"
    by blast
  with s1 show ?case by simp
qed

text \<open>
  With reversal disabled the grant folds the accumulated offset into the animator's
  offset and resets its value to zero.
\<close>

lemma grant_folds:
  assumes "\<not> shouldReverse p" and "listening (pan s)"
  shows "\<exists>s'. exec p [Grant g] s = Inr s' \<and> listening (pan s') \<and>
           startBounds s' = Some (getBounds p s) \<and>
           animOffset (pan s') = offsetFromStart s \<and> animValue (pan s') = (0, 0) \<and>
           offsetFromStart s' = (double (0 + fst (offsetFromStart s)),
                                 double (0 + snd (offsetFromStart s))) \<and>
           childSize s' = childSize s"
  using assms
  by (simp add: onPanResponderGrant_def setValue_def notifyListener_def setOffset_def
      flattened_def Let_def)

text \<open>
  With reversal disabled the release merges the animator's offset into its value and
  resets the offset to zero; the listener has mirrored the sum of the two.
\<close>

lemma drag_then_release:
  assumes "\<not> shouldReverse p" and "listening (pan s)" and "startBounds s = Some b"
  shows "\<exists>s'. exec p [Move gs, Release gr] s = Inr s' \<and>
           offsetFromStart s' = (double (changeX p b gs + fst (animOffset (pan s))),
                                 double (changeY p b gs + snd (animOffset (pan s)))) \<and>
           animValue (pan s') = offsetFromStart s' \<and> animOffset (pan s') = (0, 0) \<and>
           childSize s' = childSize s \<and> listening (pan s') \<and> \<not> isDragging s'"
  using assms
  by (simp add: handleOnDrag_def onPanResponderRelease_def setValue_def notifyListener_def
      flattenOffset_def flattened_def Let_def)

text \<open>
  With reversal disabled, the events that are no motion leave the accumulated offset
  \<open>{10, -5}\<close> where it is, and none of them fails.
\<close>

lemma still_keeps_offset:
  assumes "\<not> shouldReverse p" and "offsetFromStart s = (10, - 5)"
    and "\<forall>e\<in>set es. \<not> isMotion e"
  shows "\<exists>s'. exec p es s = Inr s' \<and> offsetFromStart s' = (10, - 5)"
  using assms(2,3)
proof (induction es arbitrary: s)
  case Nil
  then show ?case by simp
next
  case (Cons e es)
  from Cons.prems(2) have e: "\<not> isMotion e" by simp
  have "\<exists>s1. step p e s = Inr s1 \<and> offsetFromStart s1 = (10, - 5)"
    using e Cons.prems(1) assms(1)
    by (cases e) (simp_all add: component_defs Let_def)
  then obtain s1 where s1: "step p e s = Inr s1" "offsetFromStart s1 = (10, - 5)" by blast
  from Cons.prems(2) have "\<forall>e\<in>set es. \<not> isMotion e" by simp
  from Cons.IH [OF s1(2) this] obtain s' where
    "exec p es s1 = Inr s'" "offsetFromStart s' = (10, - 5)" by blast
  with s1(1) show ?case by simp
qed

text \<open>
  C4. With reversal disabled and base \<open>{0, 0}\<close>: after the first grant, any moves, a last
  move whose clamped delta is \<open>{10, -5}\<close> and the release, \<open>getBounds\<close> returns the rectangle
  that the Bounds Tracker's contract gives for base \<open>{10, -5}\<close> and offset \<open>{0, 0}\<close>, the
  animator holds the merged value \<open>{10, -5}\<close> with offset \<open>{0, 0}\<close>, and the drag is over.
  The position is committed for what follows: the next grant captures the rectangle at
  \<open>{10, -5}\<close> and folds \<open>{10, -5}\<close> into the animator's offset with the value reset to
  \<open>{0, 0}\<close>; a move and release of that drag end at \<open>{10, -5}\<close> plus the new clamped delta
  (at \<open>{10, -5}\<close> itself when that delta is zero), again merged into the value with
  offset \<open>{0, 0}\<close>. And whatever events follow the release, as long as none of them is
  a motion (a move of a later drag, \<open>animateTo\<close>, a spring frame), all of them are
  handled and \<open>getBounds\<close> keeps returning the rectangle for base \<open>{10, -5}\<close> and offset
  \<open>{0, 0}\<close>, with the size measured last.
\<close>

theorem commit_in_place:
  assumes "\<not> shouldReverse p" and "x p = 0" and "y p = 0"
    and "changeX p (currentRectangle (0, 0) (0, 0) (renderSize p, renderSize p)) gs = 10"
    and "changeY p (currentRectangle (0, 0) (0, 0) (renderSize p, renderSize p)) gs = - 5"
  shows "\<exists>s. run p (Grant g0 # map Move ms @ [Move gs, Release gr]) = Inr s \<and>
           getBounds p s = currentRectangle (10, - 5) (0, 0) (childSize s) \<and>
           animValue (pan s) = (10, - 5) \<and> animOffset (pan s) = (0, 0) \<and>
           offsetFromStart s = (10, - 5) \<and> \<not> isDragging s \<and>
           (\<forall>es. (\<forall>e\<in>set es. \<not> isMotion e) \<longrightarrow>
              (\<exists>s'. exec p es s = Inr s' \<and> offsetFromStart s' = (10, - 5) \<and>
                 getBounds p s' = currentRectangle (10, - 5) (0, 0) (childSize s'))) \<and>
           (\<forall>g1 gs2 gr2. \<exists>s1 s2.
              exec p [Grant g1] s = Inr s1 \<and>
              startBounds s1 = Some (currentRectangle (10, - 5) (0, 0) (childSize s)) \<and>
              getBounds p s1 = currentRectangle (10, - 5) (0, 0) (childSize s) \<and>
              animOffset (pan s1) = (10, - 5) \<and> animValue (pan s1) = (0, 0) \<and>
              exec p [Move gs2, Release gr2] s1 = Inr s2 \<and>
              offsetFromStart s2 =
                (double (changeX p (currentRectangle (10, - 5) (0, 0) (childSize s)) gs2 + 10),
                 double (changeY p (currentRectangle (10, - 5) (0, 0) (childSize s)) gs2 + - 5)) \<and>
              animValue (pan s2) = offsetFromStart s2 \<and> animOffset (pan s2) = (0, 0) \<and>
              getBounds p s2 = currentRectangle (0, 0) (offsetFromStart s2) (childSize s) \<and>
              (changeX p (currentRectangle (10, - 5) (0, 0) (childSize s)) gs2 = 0 \<and>
               changeY p (currentRectangle (10, - 5) (0, 0) (childSize s)) gs2 = 0 \<longrightarrow>
                 getBounds p s2 = currentRectangle (10, - 5) (0, 0) (childSize s)))"
proof -
  define b where "b = currentRectangle (0, 0) (0, 0) (renderSize p, renderSize p)"
  have m: "listening (pan (mount p))" "offsetFromStart (mount p) = (0, 0)"
    "getBounds p (mount p) = b"
    using assms(1-3) by (simp_all add: b_def component_defs currentRectangle_def Let_def)
  from grant_folds [OF assms(1) m(1), of g0] obtain s1 where s1:
    "exec p [Grant g0] (mount p) = Inr s1" "listening (pan s1)" "startBounds s1 = Some b"
    "animOffset (pan s1) = (0, 0)"
    using m(2,3) by auto
  from exec_moves_drag [OF s1(2) s1(3)] obtain s2 where s2:
    "exec p (map Move ms) s1 = Inr s2" "listening (pan s2)" "startBounds s2 = Some b"
    "animOffset (pan s2) = animOffset (pan s1)"
    by blast
  from drag_then_release [OF assms(1) s2(2) s2(3)] obtain s where s:
    "exec p [Move gs, Release gr] s2 = Inr s"
    "offsetFromStart s = (double (changeX p b gs + fst (animOffset (pan s2))),
                          double (changeY p b gs + snd (animOffset (pan s2))))"
    "animValue (pan s) = offsetFromStart s" "animOffset (pan s) = (0, 0)"
    "listening (pan s)" "\<not> isDragging s"
    by blast
  have off: "offsetFromStart s = (10, - 5)"
    using s(2) s2(4) s1(4) assms(4,5) by (simp add: b_def)
  have run: "run p (Grant g0 # map Move ms @ [Move gs, Release gr]) = Inr s"
    using s1(1) s2(1) s(1) by (simp add: run_def exec_append split: sum.splits)
  define c where "c = currentRectangle (10, - 5) (0, 0) (childSize s)"
  have gb: "getBounds p s = c"
    using off assms(2,3) by (simp add: c_def getBounds_def currentRectangle_def Let_def)
  have next_drag: "\<exists>s3 s4.
      exec p [Grant g1] s = Inr s3 \<and> startBounds s3 = Some c \<and> getBounds p s3 = c \<and>
      animOffset (pan s3) = (10, - 5) \<and> animValue (pan s3) = (0, 0) \<and>
      exec p [Move gs2, Release gr2] s3 = Inr s4 \<and>
      offsetFromStart s4 = (double (changeX p c gs2 + 10), double (changeY p c gs2 + - 5)) \<and>
      animValue (pan s4) = offsetFromStart s4 \<and> animOffset (pan s4) = (0, 0) \<and>
      getBounds p s4 = currentRectangle (0, 0) (offsetFromStart s4) (childSize s) \<and>
      (changeX p c gs2 = 0 \<and> changeY p c gs2 = 0 \<longrightarrow> getBounds p s4 = c)"
    for g1 gs2 gr2
  proof -
    from grant_folds [OF assms(1) s(5), of g1] obtain s3 where s3:
      "exec p [Grant g1] s = Inr s3" "listening (pan s3)" "startBounds s3 = Some c"
      "animOffset (pan s3) = (10, - 5)" "animValue (pan s3) = (0, 0)"
      "offsetFromStart s3 = (10, - 5)" "childSize s3 = childSize s"
      using off gb by auto
    have gb3: "getBounds p s3 = c"
      using s3(6,7) assms(2,3) by (simp add: c_def getBounds_def currentRectangle_def Let_def)
    from drag_then_release [OF assms(1) s3(2) s3(3), of gs2 gr2] obtain s4 where s4:
      "exec p [Move gs2, Release gr2] s3 = Inr s4"
      "offsetFromStart s4 = (double (changeX p c gs2 + 10), double (changeY p c gs2 + - 5))"
      "animValue (pan s4) = offsetFromStart s4" "animOffset (pan s4) = (0, 0)"
      "childSize s4 = childSize s3"
      using s3(4) by auto
    have gb4: "getBounds p s4 = currentRectangle (0, 0) (offsetFromStart s4) (childSize s)"
      using s4(5) s3(7) assms(2,3) by (simp add: getBounds_def currentRectangle_def Let_def)
    have "changeX p c gs2 = 0 \<and> changeY p c gs2 = 0 \<longrightarrow> getBounds p s4 = c"
      using gb4 s4(2) by (simp add: c_def currentRectangle_def Let_def)
    with s3(1,3,4,5) gb3 s4(1,2,3,4) gb4 show ?thesis by blast
  qed
  have still: "\<exists>s'. exec p es s = Inr s' \<and> offsetFromStart s' = (10, - 5) \<and>
      getBounds p s' = currentRectangle (10, - 5) (0, 0) (childSize s')"
    if "\<forall>e\<in>set es. \<not> isMotion e" for es
  proof -
    from still_keeps_offset [OF assms(1) off that] obtain s' where
      s': "exec p es s = Inr s'" "offsetFromStart s' = (10, - 5)" by blast
    have "getBounds p s' = currentRectangle (10, - 5) (0, 0) (childSize s')"
      using s'(2) assms(2,3) by (simp add: getBounds_def currentRectangle_def Let_def)
    with s' show ?thesis by blast
  qed
  have a: "animValue (pan s) = (10, - 5)" using s(3) off by simp
  have b1: "getBounds p s = currentRectangle (10, - 5) (0, 0) (childSize s)"
    using gb by (simp add: c_def)
  have b2: "\<forall>es. (\<forall>e\<in>set es. \<not> isMotion e) \<longrightarrow>
      (\<exists>s'. exec p es s = Inr s' \<and> offsetFromStart s' = (10, - 5) \<and>
         getBounds p s' = currentRectangle (10, - 5) (0, 0) (childSize s'))"
    using still by blast
  have b3: "\<forall>g1 gs2 gr2. \<exists>s3 s4.
      exec p [Grant g1] s = Inr s3 \<and> startBounds s3 = Some c \<and> getBounds p s3 = c \<and>
      animOffset (pan s3) = (10, - 5) \<and> animValue (pan s3) = (0, 0) \<and>
      exec p [Move gs2, Release gr2] s3 = Inr s4 \<and>
      offsetFromStart s4 = (double (changeX p c gs2 + 10), double (changeY p c gs2 + - 5)) \<and>
      animValue (pan s4) = offsetFromStart s4 \<and> animOffset (pan s4) = (0, 0) \<and>
      getBounds p s4 = currentRectangle (0, 0) (offsetFromStart s4) (childSize s) \<and>
      (changeX p c gs2 = 0 \<and> changeY p c gs2 = 0 \<longrightarrow> getBounds p s4 = c)"
    using next_drag by blast
  from run b1 a s(4) off s(6) b2 b3 show ?thesis unfolding c_def by blast
qed

text \<open>
  The theorem above at the default props, with one move before the last one, followed
  by a tap and a new measurement, and by a second drag whose move has the clamped
  delta \<open>{0, 0}\<close>.
\<close>

theorem commit_in_place_witness:
  "\<not> shouldReverse defaultProps \<and> x defaultProps = 0 \<and> y defaultProps = 0 \<and>
   changeX defaultProps (currentRectangle (0, 0) (0, 0) (renderSize defaultProps, renderSize defaultProps))
     \<lparr>dx = 10, dy = - 5\<rparr> = 10 \<and>
   changeY defaultProps (currentRectangle (0, 0) (0, 0) (renderSize defaultProps, renderSize defaultProps))
     \<lparr>dx = 10, dy = - 5\<rparr> = - 5 \<and>
   run defaultProps (Grant \<lparr>dx = 0, dy = 0\<rparr> # map Move [\<lparr>dx = 4, dy = 0\<rparr>] @
        [Move \<lparr>dx = 10, dy = - 5\<rparr>, Release \<lparr>dx = 10, dy = - 5\<rparr>]) =
     Inr \<lparr>pan = \<lparr>animValue = (10, - 5), animOffset = (0, 0), listening = True, spring = None\<rparr>,
          offsetFromStart = (10, - 5), childSize = (36, 36),
          startBounds = Some \<lparr>left = 0, top' = 0, right = 36, bottom = 36\<rparr>,
          isDragging = False,
          calls = [OnDrag \<lparr>dx = 4, dy = 0\<rparr>
                     \<lparr>left = 0, top' = 0, right = 36, bottom = 36\<rparr>
                     \<lparr>left = 4, top' = 0, right = 40, bottom = 36\<rparr>,
                   OnDrag \<lparr>dx = 10, dy = - 5\<rparr>
                     \<lparr>left = 0, top' = 0, right = 36, bottom = 36\<rparr>
                     \<lparr>left = 10, top' = - 5, right = 46, bottom = 31\<rparr>,
                   OnDragRelease \<lparr>dx = 10, dy = - 5\<rparr>
                     (Some \<lparr>left = 0, top' = 0, right = 36, bottom = 36\<rparr>)
                     \<lparr>left = 10, top' = - 5, right = 46, bottom = 31\<rparr>,
                   OnRelease True]\<rparr> \<and>
   currentRectangle (10, - 5) (0, 0) (36, 36) =
     \<lparr>left = 10, top' = - 5, right = 46, bottom = 31\<rparr> \<and>
   \<not> isMotion PressIn \<and> \<not> isMotion PressOut \<and> \<not> isMotion Press \<and> \<not> isMotion (Layout 40 50) \<and>
   map_sum id (getBounds defaultProps)
     (run defaultProps (Grant \<lparr>dx = 0, dy = 0\<rparr> # map Move [\<lparr>dx = 4, dy = 0\<rparr>] @
        [Move \<lparr>dx = 10, dy = - 5\<rparr>, Release \<lparr>dx = 10, dy = - 5\<rparr>] @
        [PressIn, PressOut, Press, Layout 40 50])) =
     Inr \<lparr>left = 10, top' = - 5, right = 50, bottom = 45\<rparr> \<and>
   currentRectangle (10, - 5) (0, 0) (40, 50) =
     \<lparr>left = 10, top' = - 5, right = 50, bottom = 45\<rparr> \<and>
   changeX defaultProps (currentRectangle (10, - 5) (0, 0) (36, 36)) \<lparr>dx = 0, dy = 0\<rparr> = 0 \<and>
   changeY defaultProps (currentRectangle (10, - 5) (0, 0) (36, 36)) \<lparr>dx = 0, dy = 0\<rparr> = 0 \<and>
   run defaultProps (Grant \<lparr>dx = 0, dy = 0\<rparr> # map Move [\<lparr>dx = 4, dy = 0\<rparr>] @
        [Move \<lparr>dx = 10, dy = - 5\<rparr>, Release \<lparr>dx = 10, dy = - 5\<rparr>] @
        [Grant \<lparr>dx = 0, dy = 0\<rparr>, Move \<lparr>dx = 0, dy = 0\<rparr>, Release \<lparr>dx = 0, dy = 0\<rparr>]) =
     Inr \<lparr>pan = \<lparr>animValue = (10, - 5), animOffset = (0, 0), listening = True, spring = None\<rparr>,
          offsetFromStart = (10, - 5), childSize = (36, 36),
          startBounds = Some \<lparr>left = 10, top' = - 5, right = 46, bottom = 31\<rparr>,
          isDragging = False,
          calls = [OnDrag \<lparr>dx = 4, dy = 0\<rparr>
                     \<lparr>left = 0, top' = 0, right = 36, bottom = 36\<rparr>
                     \<lparr>left = 4, top' = 0, right = 40, bottom = 36\<rparr>,
                   OnDrag \<lparr>dx = 10, dy = - 5\<rparr>
                     \<lparr>left = 0, top' = 0, right = 36, bottom = 36\<rparr>
                     \<lparr>left = 10, top' = - 5, right = 46, bottom = 31\<rparr>,
                   OnDragRelease \<lparr>dx = 10, dy = - 5\<rparr>
                     (Some \<lparr>left = 0, top' = 0, right = 36, bottom = 36\<rparr>)
                     \<lparr>left = 10, top' = - 5, right = 46, bottom = 31\<rparr>,
                   OnRelease True,
                   OnDrag \<lparr>dx = 0, dy = 0\<rparr>
                     \<lparr>left = 10, top' = - 5, right = 46, bottom = 31\<rparr>
                     \<lparr>left = 10, top' = - 5, right = 46, bottom = 31\<rparr>,
                   OnDragRelease \<lparr>dx = 0, dy = 0\<rparr>
                     (Some \<lparr>left = 10, top' = - 5, right = 46, bottom = 31\<rparr>)
                     \<lparr>left = 10, top' = - 5, right = 46, bottom = 31\<rparr>,
                   OnRelease True]\<rparr>"
  using commit_in_place [of defaultProps "\<lparr>dx = 10, dy = - 5\<rparr>" "\<lparr>dx = 0, dy = 0\<rparr>"
      "[\<lparr>dx = 4, dy = 0\<rparr>]" "\<lparr>dx = 10, dy = - 5\<rparr>"]
  by (simp add: run_def component_defs defaultProps_def currentRectangle_def changeX_def
      changeY_def clamp_def far_def Let_def)

text \<open>
  C5. With reversal enabled, the release starts a spring whose target is \<open>{0, 0}\<close> when
  no \<open>onReverse\<close> is supplied or when it returns \<open>undefined\<close>, and the value \<open>onReverse\<close>
  returns otherwise, in every state and for every gesture state.
\<close>

theorem reverse_target:
  "shouldReverse p \<longrightarrow>
     (onReverse p = None \<longrightarrow>
        map_option toValue (spring (pan (onPanResponderRelease p gs s))) = Some (Some (0, 0))) \<and>
     (onReverse p = Some f \<and> f () = None \<longrightarrow>
        map_option toValue (spring (pan (onPanResponderRelease p gs s))) = Some (Some (0, 0))) \<and>
     (onReverse p = Some f \<and> f () = Some v \<longrightarrow>
        map_option toValue (spring (pan (onPanResponderRelease p gs s))) = Some (Some v))"
  by (simp add: onPanResponderRelease_def reversePosition_def springStart_def newOffset_def
      originalOffset_def Let_def)

text \<open>
  The theorem above after mounting with reversal enabled: without \<open>onReverse\<close>, with one
  that returns \<open>undefined\<close>, and with one that returns \<open>{7, 9}\<close>.
\<close>

theorem reverse_target_witness:
  "shouldReverse (defaultProps\<lparr>shouldReverse := True\<rparr>) \<and>
   onReverse (defaultProps\<lparr>shouldReverse := True\<rparr>) = None \<and>
   map_option toValue (spring (pan (onPanResponderRelease (defaultProps\<lparr>shouldReverse := True\<rparr>)
     \<lparr>dx = 80, dy = 0\<rparr> (mount (defaultProps\<lparr>shouldReverse := True\<rparr>))))) = Some (Some (0, 0)) \<and>
   map_option toValue (spring (pan (onPanResponderRelease
     (defaultProps\<lparr>shouldReverse := True, onReverse := Some (\<lambda>u. None)\<rparr>)
     \<lparr>dx = 80, dy = 0\<rparr> (mount (defaultProps\<lparr>shouldReverse := True\<rparr>))))) = Some (Some (0, 0)) \<and>
   map_option toValue (spring (pan (onPanResponderRelease
     (defaultProps\<lparr>shouldReverse := True, onReverse := Some (\<lambda>u. Some (7, 9))\<rparr>)
     \<lparr>dx = 80, dy = 0\<rparr> (mount (defaultProps\<lparr>shouldReverse := True\<rparr>))))) = Some (Some (7, 9))"
  using
    reverse_target [where p = "defaultProps\<lparr>shouldReverse := True\<rparr>" and f = "\<lambda>u. None"
      and gs = "\<lparr>dx = 80, dy = 0\<rparr>" and s = "mount (defaultProps\<lparr>shouldReverse := True\<rparr>)"
      and v = "(0, 0)"]
    reverse_target [where p = "defaultProps\<lparr>shouldReverse := True, onReverse := Some (\<lambda>u. None)\<rparr>"
      and f = "\<lambda>u. None" and gs = "\<lparr>dx = 80, dy = 0\<rparr>"
      and s = "mount (defaultProps\<lparr>shouldReverse := True\<rparr>)" and v = "(0, 0)"]
    reverse_target [where p = "defaultProps\<lparr>shouldReverse := True, onReverse := Some (\<lambda>u. Some (7, 9))\<rparr>"
      and f = "\<lambda>u. Some (7, 9)" and gs = "\<lparr>dx = 80, dy = 0\<rparr>"
      and s = "mount (defaultProps\<lparr>shouldReverse := True\<rparr>)" and v = "(7, 9)"]
  by (simp add: defaultProps_def)

text \<open>
  C7. \<open>animateTo\<close> hands its target to the spring as it is: for an \<open>undefined\<close> target
  the spring is started with \<open>toValue\<close> \<open>undefined\<close>, not with \<open>{0, 0}\<close>, and the call ends
  in a TypeError. The replacement of an \<open>undefined\<close> target by \<open>{0, 0}\<close> is made by
  \<open>reversePosition\<close> only.
\<close>

theorem animateTo_undefined_target:
  "map_option toValue (spring (pan (animateTo None False (mount defaultProps)))) = Some None \<and>
   map_option toValue (spring (pan (reversePosition (defaultProps\<lparr>onReverse := Some (\<lambda>u. None)\<rparr>)
      (mount defaultProps)))) = Some (Some (0, 0)) \<and>
   step defaultProps (AnimateTo None False) (mount defaultProps) = Inl TypeError"
  by (simp add: animateTo_def reversePosition_def springStart_def newOffset_def
      originalOffset_def defaultProps_def)

subsection \<open>Gesture state\<close>

lemma step_AnimateTo:
  "step p (AnimateTo t cb) s = Inr s' \<Longrightarrow> s' = animateTo t cb s"
  by (cases t) simp_all

lemma step_active:
  assumes "step p e s = Inr s'" and "isDragging s \<longrightarrow> startBounds s \<noteq> None"
  shows "isDragging s' \<longrightarrow> startBounds s' \<noteq> None"
  using assms
  by (cases e)
     (auto simp: component_defs Let_def dest!: step_AnimateTo split: option.splits if_splits)

text \<open>Only the grant writes \<open>startBounds\<close>: it stores what \<open>getBounds\<close> returns at that moment.\<close>

lemma step_startBounds:
  assumes "step p e s = Inr s'"
  shows "startBounds s' = (if isGrant e then Some (getBounds p s) else startBounds s)"
proof (cases e)
  case (Grant g)
  then show ?thesis using assms
    by (auto simp: onPanResponderGrant_def setValue_def notifyListener_def Let_def)
next
  case (Move g)
  then show ?thesis using assms
    by (auto simp: handleOnDrag_def setValue_def notifyListener_def Let_def
        split: option.splits)
next
  case (Release g)
  then show ?thesis using assms
    by (auto simp: onPanResponderRelease_def reversePosition_def Let_def)
next
  case (Layout w h)
  then show ?thesis using assms by (auto simp: handleOnLayout_def)
next
  case PressIn
  then show ?thesis using assms by auto
next
  case PressOut
  then show ?thesis using assms by (auto simp: handlePressOut_def Let_def)
next
  case Press
  then show ?thesis using assms by auto
next
  case LongPress
  then show ?thesis using assms by auto
next
  case (AnimateTo t cb)
  then show ?thesis using assms by (auto simp: animateTo_def dest!: step_AnimateTo)
next
  case (SpringFrame v)
  then show ?thesis using assms
    by (auto simp: springFrame_def notifyListener_def split: option.splits)
next
  case SpringRest
  then show ?thesis using assms
    by (auto simp: springRest_def Let_def split: option.splits)
qed

lemma exec_active:
  "exec p es s = Inr s' \<Longrightarrow> isDragging s \<longrightarrow> startBounds s \<noteq> None \<Longrightarrow>
   isDragging s' \<longrightarrow> startBounds s' \<noteq> None"
proof (induction es arbitrary: s)
  case Nil
  then show ?case by simp
next
  case (Cons e es)
  from Cons.prems(1) obtain s1 where s1: "step p e s = Inr s1" "exec p es s1 = Inr s'"
    by (auto split: sum.splits)
  from s1(1) Cons.prems(2) have "isDragging s1 \<longrightarrow> startBounds s1 \<noteq> None"
    by (rule step_active)
  with s1(2) show ?case by (rule Cons.IH)
qed

lemma exec_startBounds:
  "exec p es s = Inr s' \<Longrightarrow>
   (startBounds s' = None) = (startBounds s = None \<and> (\<forall>e\<in>set es. \<not> isGrant e))"
proof (induction es arbitrary: s)
  case Nil
  then show ?case by simp
next
  case (Cons e es)
  from Cons.prems obtain s1 where s1: "step p e s = Inr s1" "exec p es s1 = Inr s'"
    by (auto split: sum.splits)
  from s1(2) have "(startBounds s' = None) = (startBounds s1 = None \<and> (\<forall>e\<in>set es. \<not> isGrant e))"
    by (rule Cons.IH)
  with step_startBounds [OF s1(1)] show ?case by auto
qed

lemma exec_keeps_startBounds:
  "exec p es s = Inr s' \<Longrightarrow> \<forall>e\<in>set es. \<not> isGrant e \<Longrightarrow> startBounds s' = startBounds s"
proof (induction es arbitrary: s)
  case Nil
  then show ?case by simp
next
  case (Cons e es)
  from Cons.prems(1) obtain s1 where s1: "step p e s = Inr s1" "exec p es s1 = Inr s'"
    by (auto split: sum.splits)
  from Cons.prems(2) have "startBounds s1 = startBounds s"
    using step_startBounds [OF s1(1)] by simp
  moreover from s1(2) Cons.prems(2) have "startBounds s' = startBounds s1"
    by (intro Cons.IH) simp_all
  ultimately show ?case by simp
qed

text \<open>
  C8, as the code has it. In every state a run reaches, \<open>startBounds\<close> is defined
  whenever \<open>isDragging\<close> is true; it is undefined exactly as long as no grant has been
  delivered; and whatever follows the most recent grant, a release included,
  \<open>startBounds\<close> holds the rectangle that \<open>getBounds\<close> returned at that grant.
\<close>

theorem startBounds_when_active:
  assumes "run p es = Inr s"
  shows "(isDragging s \<longrightarrow> startBounds s \<noteq> None) \<and>
         (startBounds s = None) = (\<forall>e\<in>set es. \<not> isGrant e) \<and>
         (\<forall>es1 g es2. es = es1 @ Grant g # es2 \<and> (\<forall>e\<in>set es2. \<not> isGrant e) \<longrightarrow>
            (\<exists>s1. run p es1 = Inr s1 \<and> startBounds s = Some (getBounds p s1)))"
proof -
  have m: "startBounds (mount p) = None" "\<not> isDragging (mount p)"
    by (simp_all add: component_defs Let_def)
  from assms have e: "exec p es (mount p) = Inr s" by (simp add: run_def)
  from e m(2) have a: "isDragging s \<longrightarrow> startBounds s \<noteq> None"
    by (intro exec_active [of p es "mount p" s]) simp_all
  from exec_startBounds [OF e] m(1)
  have b: "(startBounds s = None) = (\<forall>e\<in>set es. \<not> isGrant e)" by simp
  have c: "\<exists>s1. run p es1 = Inr s1 \<and> startBounds s = Some (getBounds p s1)"
    if h: "es = es1 @ Grant g # es2" "\<forall>e\<in>set es2. \<not> isGrant e" for es1 g es2
  proof -
    from e h(1) obtain s1 where s1: "exec p es1 (mount p) = Inr s1"
      "exec p (Grant g # es2) s1 = Inr s"
      by (auto simp: exec_append split: sum.splits)
    from s1(2) obtain s2 where s2: "step p (Grant g) s1 = Inr s2" "exec p es2 s2 = Inr s"
      by (auto split: sum.splits)
    have "startBounds s2 = Some (getBounds p s1)" using step_startBounds [OF s2(1)] by simp
    moreover have "startBounds s = startBounds s2" using s2(2) h(2) by (rule exec_keeps_startBounds)
    ultimately show ?thesis using s1(1) by (simp add: run_def)
  qed
  from a b c show ?thesis by blast
qed

text \<open>
  The theorem above for a grant, a move and the release with the default props: idle
  again, \<open>startBounds\<close> is the rectangle at the origin that the grant captured.
\<close>

theorem startBounds_when_active_witness:
  "run defaultProps [Grant \<lparr>dx = 0, dy = 0\<rparr>, Move \<lparr>dx = 10, dy = - 5\<rparr>,
      Release \<lparr>dx = 10, dy = - 5\<rparr>] =
     Inr \<lparr>pan = \<lparr>animValue = (10, - 5), animOffset = (0, 0), listening = True, spring = None\<rparr>,
          offsetFromStart = (10, - 5), childSize = (36, 36),
          startBounds = Some \<lparr>left = 0, top' = 0, right = 36, bottom = 36\<rparr>,
          isDragging = False,
          calls = [OnDrag \<lparr>dx = 10, dy = - 5\<rparr>
                     \<lparr>left = 0, top' = 0, right = 36, bottom = 36\<rparr>
                     \<lparr>left = 10, top' = - 5, right = 46, bottom = 31\<rparr>,
                   OnDragRelease \<lparr>dx = 10, dy = - 5\<rparr>
                     (Some \<lparr>left = 0, top' = 0, right = 36, bottom = 36\<rparr>)
                     \<lparr>left = 10, top' = - 5, right = 46, bottom = 31\<rparr>,
                   OnRelease True]\<rparr> \<and>
   [Grant \<lparr>dx = 0, dy = 0\<rparr>, Move \<lparr>dx = 10, dy = - 5\<rparr>, Release \<lparr>dx = 10, dy = - 5\<rparr>] =
     [] @ Grant \<lparr>dx = 0, dy = 0\<rparr> # [Move \<lparr>dx = 10, dy = - 5\<rparr>, Release \<lparr>dx = 10, dy = - 5\<rparr>] \<and>
   \<not> isGrant (Move \<lparr>dx = 10, dy = - 5\<rparr>) \<and> \<not> isGrant (Release \<lparr>dx = 10, dy = - 5\<rparr>) \<and>
   run defaultProps [] = Inr (mount defaultProps) \<and>
   getBounds defaultProps (mount defaultProps) =
     \<lparr>left = 0, top' = 0, right = 36, bottom = 36\<rparr>"
  using startBounds_when_active [of defaultProps
      "[Grant \<lparr>dx = 0, dy = 0\<rparr>, Move \<lparr>dx = 10, dy = - 5\<rparr>, Release \<lparr>dx = 10, dy = - 5\<rparr>]"]
  by (simp add: run_def component_defs defaultProps_def changeX_def changeY_def clamp_def
      far_def Let_def)

text \<open>
  C8 as stated fails after a release: following a grant and a release with the default
  props, \<open>isDragging\<close> is false and \<open>startBounds\<close> still holds the rectangle of the grant.
\<close>

theorem startBounds_when_active_counterexample:
  "isDragging (onPanResponderRelease defaultProps \<lparr>dx = 0, dy = 0\<rparr>
      (onPanResponderGrant defaultProps \<lparr>dx = 0, dy = 0\<rparr> (mount defaultProps))) = False \<and>
   startBounds (onPanResponderRelease defaultProps \<lparr>dx = 0, dy = 0\<rparr>
      (onPanResponderGrant defaultProps \<lparr>dx = 0, dy = 0\<rparr> (mount defaultProps))) =
     Some \<lparr>left = 0, top' = 0, right = 36, bottom = 36\<rparr>"
  by (simp add: component_defs defaultProps_def Let_def)

subsection \<open>Reversal mode\<close>

lemma mount_reverse:
  assumes "shouldReverse p"
  shows "\<not> listening (pan (mount p))" "offsetFromStart (mount p) = (0, 0)"
    "childSize (mount p) = (renderSize p, renderSize p)" "startBounds (mount p) = None"
    "\<forall>c\<in>set (calls (mount p)). reported c = []"
  using assms by (simp_all add: component_defs Let_def)

lemma getBounds_base:
  "offsetFromStart s = (0, 0) \<Longrightarrow> childSize s \<in> S \<Longrightarrow>
   getBounds p s \<in> currentRectangle (x p, y p) (0, 0) ` S"
  by (rule image_eqI [where x = "childSize s"])
     (simp_all add: getBounds_def currentRectangle_def Let_def)

lemma step_reverse_shape:
  assumes "shouldReverse p" and "step p e s = Inr s'" and "\<not> listening (pan s)"
  shows "\<not> listening (pan s') \<and> offsetFromStart s' = offsetFromStart s \<and>
         (childSize s' = childSize s \<or> childSize s' \<in> set (measured [e])) \<and>
         (startBounds s' = startBounds s \<or> startBounds s' = Some (getBounds p s)) \<and>
         (\<exists>new. calls s' = calls s @ new \<and>
            (\<forall>c\<in>set new. \<forall>r\<in>set (reported c). startBounds s = Some r \<or> r = getBounds p s))"
proof (cases e)
  case (Grant g)
  then show ?thesis using assms by (auto simp: onPanResponderGrant_def Let_def)
next
  case (Move g)
  then show ?thesis using assms
    by (auto simp: handleOnDrag_def setValue_def notifyListener_def getBounds_def Let_def
        split: option.splits)
next
  case (Release g)
  then show ?thesis using assms
    by (cases "startBounds s"; cases "onDragRelease p")
       (auto simp: onPanResponderRelease_def reversePosition_def springStart_def getBounds_def
          Let_def)
next
  case (Layout w h)
  then show ?thesis using assms by (auto simp: handleOnLayout_def)
next
  case PressIn
  then show ?thesis using assms by auto
next
  case PressOut
  then show ?thesis using assms by (cases "isDragging s") (auto simp: handlePressOut_def Let_def)
next
  case Press
  then show ?thesis using assms by auto
next
  case LongPress
  then show ?thesis using assms by auto
next
  case (AnimateTo t cb)
  then show ?thesis using assms
    by (auto simp: animateTo_def springStart_def dest!: step_AnimateTo)
next
  case (SpringFrame v)
  then show ?thesis using assms
    by (cases "spring (pan s)") (auto simp: springFrame_def notifyListener_def)
next
  case SpringRest
  then show ?thesis using assms
    by (cases "spring (pan s)") (auto simp: springRest_def Let_def split: if_splits)
qed

lemma measured_Cons: "set (measured (e # es)) = set (measured [e]) \<union> set (measured es)"
  by (cases e) simp_all

lemma step_reverse:
  assumes "shouldReverse p" and "step p e s = Inr s'"
    and "\<not> listening (pan s)" and "offsetFromStart s = (0, 0)" and "childSize s \<in> S"
    and "\<forall>b. startBounds s = Some b \<longrightarrow> b \<in> currentRectangle (x p, y p) (0, 0) ` S"
    and "\<forall>c\<in>set (calls s). set (reported c) \<subseteq> currentRectangle (x p, y p) (0, 0) ` S"
  shows "\<not> listening (pan s')" and "offsetFromStart s' = (0, 0)"
    and "childSize s' \<in> S \<union> set (measured [e])"
    and "\<forall>b. startBounds s' = Some b \<longrightarrow>
            b \<in> currentRectangle (x p, y p) (0, 0) ` (S \<union> set (measured [e]))"
    and "\<forall>c\<in>set (calls s'). set (reported c) \<subseteq>
            currentRectangle (x p, y p) (0, 0) ` (S \<union> set (measured [e]))"
proof -
  define R where "R = currentRectangle (x p, y p) (0, 0) ` S"
  define R' where "R' = currentRectangle (x p, y p) (0, 0) ` (S \<union> set (measured [e]))"
  have sub: "R \<subseteq> R'" by (auto simp: R_def R'_def)
  have gb: "getBounds p s \<in> R"
    unfolding R_def using assms(4,5) by (rule getBounds_base)
  have a6: "\<forall>b. startBounds s = Some b \<longrightarrow> b \<in> R"
    and a7: "\<forall>c\<in>set (calls s). set (reported c) \<subseteq> R"
    using assms(6,7) by (simp_all add: R_def)
  from step_reverse_shape [OF assms(1-3)] obtain new where sh:
    "\<not> listening (pan s')" "offsetFromStart s' = offsetFromStart s"
    "childSize s' = childSize s \<or> childSize s' \<in> set (measured [e])"
    "startBounds s' = startBounds s \<or> startBounds s' = Some (getBounds p s)"
    "calls s' = calls s @ new"
    "\<forall>c\<in>set new. \<forall>r\<in>set (reported c). startBounds s = Some r \<or> r = getBounds p s"
    by blast
  show "\<not> listening (pan s')" by (rule sh(1))
  show "offsetFromStart s' = (0, 0)" using sh(2) assms(4) by simp
  show "childSize s' \<in> S \<union> set (measured [e])" using sh(3) assms(5) by auto
  have "\<forall>b. startBounds s' = Some b \<longrightarrow> b \<in> R'"
    using sh(4) a6 gb sub by auto
  then show "\<forall>b. startBounds s' = Some b \<longrightarrow>
            b \<in> currentRectangle (x p, y p) (0, 0) ` (S \<union> set (measured [e]))"
    by (simp add: R'_def)
  have "\<forall>c\<in>set new. set (reported c) \<subseteq> R"
    using sh(6) a6 gb by blast
  with a7 sh(5) sub have "\<forall>c\<in>set (calls s'). set (reported c) \<subseteq> R'"
    by auto
  then show "\<forall>c\<in>set (calls s'). set (reported c) \<subseteq>
            currentRectangle (x p, y p) (0, 0) ` (S \<union> set (measured [e]))"
    by (simp add: R'_def)
qed

lemma exec_reverse:
  assumes "shouldReverse p"
  shows "exec p es s = Inr s' \<Longrightarrow>
    \<not> listening (pan s) \<Longrightarrow> offsetFromStart s = (0, 0) \<Longrightarrow> childSize s \<in> S \<Longrightarrow>
    \<forall>b. startBounds s = Some b \<longrightarrow> b \<in> currentRectangle (x p, y p) (0, 0) ` S \<Longrightarrow>
    \<forall>c\<in>set (calls s). set (reported c) \<subseteq> currentRectangle (x p, y p) (0, 0) ` S \<Longrightarrow>
    \<not> listening (pan s') \<and> offsetFromStart s' = (0, 0) \<and>
    childSize s' \<in> S \<union> set (measured es) \<and>
    (\<forall>b. startBounds s' = Some b \<longrightarrow>
       b \<in> currentRectangle (x p, y p) (0, 0) ` (S \<union> set (measured es))) \<and>
    (\<forall>c\<in>set (calls s'). set (reported c) \<subseteq>
       currentRectangle (x p, y p) (0, 0) ` (S \<union> set (measured es)))"
proof (induction es arbitrary: s S)
  case Nil
  then show ?case by simp
next
  case (Cons e es)
  from Cons.prems(1) obtain s1 where s1: "step p e s = Inr s1" "exec p es s1 = Inr s'"
    by (auto split: sum.splits)
  note st = step_reverse [OF assms s1(1) Cons.prems(2-6)]
  have eq: "S \<union> set (measured [e]) \<union> set (measured es) = S \<union> set (measured (e # es))"
    using measured_Cons [of e es] by auto
  from Cons.IH [OF s1(2) st] show ?case unfolding eq .
qed

text \<open>
  C10. With reversal enabled no listener is ever subscribed, so in every state a run
  reaches \<open>offsetFromStart\<close> is \<open>{0, 0}\<close> and \<open>getBounds\<close> returns the rectangle at the base
  position \<open>(x, y)\<close> with the current size; \<open>startBounds\<close> and every rectangle passed to
  \<open>onDrag\<close> or \<open>onDragRelease\<close> is the rectangle at the base position with a size that was
  measured (the render size, or a size reported by the layout callback), whatever the
  moves were.
\<close>

theorem reversal_keeps_base_rectangle:
  assumes "shouldReverse p" and "run p es = Inr s"
  shows "\<not> listening (pan s) \<and> offsetFromStart s = (0, 0) \<and>
    getBounds p s = currentRectangle (x p, y p) (0, 0) (childSize s) \<and>
    childSize s \<in> set ((renderSize p, renderSize p) # measured es) \<and>
    (\<forall>b. startBounds s = Some b \<longrightarrow>
       (\<exists>sz\<in>set ((renderSize p, renderSize p) # measured es).
          b = currentRectangle (x p, y p) (0, 0) sz)) \<and>
    (\<forall>c\<in>set (calls s). \<forall>r\<in>set (reported c).
       \<exists>sz\<in>set ((renderSize p, renderSize p) # measured es).
          r = currentRectangle (x p, y p) (0, 0) sz)"
proof -
  from assms(2) have e: "exec p es (mount p) = Inr s" by (simp add: run_def)
  have m: "\<not> listening (pan (mount p))" "offsetFromStart (mount p) = (0, 0)"
    "childSize (mount p) \<in> {(renderSize p, renderSize p)}"
    "\<forall>b. startBounds (mount p) = Some b \<longrightarrow>
       b \<in> currentRectangle (x p, y p) (0, 0) ` {(renderSize p, renderSize p)}"
    "\<forall>c\<in>set (calls (mount p)). set (reported c) \<subseteq>
       currentRectangle (x p, y p) (0, 0) ` {(renderSize p, renderSize p)}"
    using mount_reverse [OF assms(1)] by simp_all
  from exec_reverse [OF assms(1) e m]
  have inv: "\<not> listening (pan s)" "offsetFromStart s = (0, 0)"
    "childSize s \<in> {(renderSize p, renderSize p)} \<union> set (measured es)"
    "\<forall>b. startBounds s = Some b \<longrightarrow>
       b \<in> currentRectangle (x p, y p) (0, 0) ` ({(renderSize p, renderSize p)} \<union> set (measured es))"
    "\<forall>c\<in>set (calls s). set (reported c) \<subseteq>
       currentRectangle (x p, y p) (0, 0) ` ({(renderSize p, renderSize p)} \<union> set (measured es))"
    by blast+
  have gb: "getBounds p s = currentRectangle (x p, y p) (0, 0) (childSize s)"
    using inv(2) by (simp add: getBounds_def currentRectangle_def Let_def)
  have sb: "\<forall>b. startBounds s = Some b \<longrightarrow>
       (\<exists>sz\<in>set ((renderSize p, renderSize p) # measured es).
          b = currentRectangle (x p, y p) (0, 0) sz)"
    using inv(4) by auto
  have cl: "\<forall>c\<in>set (calls s). \<forall>r\<in>set (reported c).
       \<exists>sz\<in>set ((renderSize p, renderSize p) # measured es).
          r = currentRectangle (x p, y p) (0, 0) sz"
    using inv(5) by auto
  from inv(1,2,3) gb sb cl show ?thesis by simp
qed

text \<open>
  The theorem above for a layout of 50 by 40, a grant, the move \<open>{80, 0}\<close> and the release:
  every rectangle reported is the one at the origin with size 50 by 40.
\<close>

theorem reversal_keeps_base_rectangle_witness:
  "shouldReverse (defaultProps\<lparr>shouldReverse := True\<rparr>) \<and>
   run (defaultProps\<lparr>shouldReverse := True\<rparr>)
     [Layout 50 40, Grant \<lparr>dx = 0, dy = 0\<rparr>, Move \<lparr>dx = 80, dy = 0\<rparr>,
      Release \<lparr>dx = 80, dy = 0\<rparr>] =
     Inr \<lparr>pan = \<lparr>animValue = (80, 0), animOffset = (0, 0), listening = False,
                 spring = Some \<lparr>toValue = Some (0, 0), restDisplacementThreshold = None,
                                restSpeedThreshold = None, callback = False\<rparr>\<rparr>,
          offsetFromStart = (0, 0), childSize = (50, 40),
          startBounds = Some \<lparr>left = 0, top' = 0, right = 50, bottom = 40\<rparr>,
          isDragging = False,
          calls = [OnDrag \<lparr>dx = 80, dy = 0\<rparr>
                     \<lparr>left = 0, top' = 0, right = 50, bottom = 40\<rparr>
                     \<lparr>left = 0, top' = 0, right = 50, bottom = 40\<rparr>,
                   OnDragRelease \<lparr>dx = 80, dy = 0\<rparr>
                     (Some \<lparr>left = 0, top' = 0, right = 50, bottom = 40\<rparr>)
                     \<lparr>left = 0, top' = 0, right = 50, bottom = 40\<rparr>,
                   OnRelease True]\<rparr> \<and>
   currentRectangle (x (defaultProps\<lparr>shouldReverse := True\<rparr>),
       y (defaultProps\<lparr>shouldReverse := True\<rparr>)) (0, 0) (50, 40) =
     \<lparr>left = 0, top' = 0, right = 50, bottom = 40\<rparr>"
  using reversal_keeps_base_rectangle [of "defaultProps\<lparr>shouldReverse := True\<rparr>"
      "[Layout 50 40, Grant \<lparr>dx = 0, dy = 0\<rparr>, Move \<lparr>dx = 80, dy = 0\<rparr>,
        Release \<lparr>dx = 80, dy = 0\<rparr>]"]
  by (simp add: run_def component_defs defaultProps_def currentRectangle_def changeX_def
      changeY_def clamp_def far_def newOffset_def originalOffset_def Let_def)

subsection \<open>Taps and drags\<close>

lemma small_not_start:
  "\<bar>dx g\<bar> \<le> 2 \<and> \<bar>dy g\<bar> \<le> 2 \<Longrightarrow> \<not> shouldStartDrag p g"
  by (auto simp: shouldStartDrag_def)








lemma exec_dragging:
  assumes "startBounds s \<noteq> None"
  shows "\<exists>s' new. exec p (dragging g ts) s = Inr s' \<and> \<not> isDragging s' \<and>
           calls s' = calls s @ new \<and> (\<forall>c\<in>set new. \<not> isPressCall c)"
  using assms
proof (induction ts arbitrary: s g)
  case Nil
  define s1 where "s1 = onPanResponderRelease p g s"
  have "\<not> isDragging s1 \<and>
      (calls s1 = calls s @ [] \<or>
       calls s1 = calls s @ [OnDragRelease g (startBounds s) (getBounds p s1), OnRelease True])"
    by (simp add: s1_def onPanResponderRelease_def reversePosition_def springStart_def
        flattenOffset_def getBounds_def Let_def)
  then have "\<not> isDragging s1 \<and>
      (\<exists>new. calls s1 = calls s @ new \<and> (\<forall>c\<in>set new. \<not> isPressCall c))"
    by fastforce
  then show ?case by (simp add: s1_def)
next
  case (Cons t ts)
  show ?case
  proof (cases t)
    case Held
    with Cons.IH [OF Cons.prems, of g] show ?thesis by simp
  next
    case (Moved m)
    from Cons.prems obtain b where b: "startBounds s = Some b" by auto
    define s1 where "s1 = setValue (changeX p b m, changeY p b m) s"
    define s2 where "s2 = s1\<lparr>calls := calls s1 @ [OnDrag m b (getBounds p s1)]\<rparr>"
    have st: "step p (Move m) s = Inr s2"
      using b by (simp add: handleOnDrag_def s1_def s2_def Let_def)
    have s2: "startBounds s2 \<noteq> None"
      "calls s2 = calls s @ [OnDrag m b (getBounds p s1)]"
      using b by (simp_all add: s2_def s1_def setValue_def notifyListener_def)
    from Cons.IH [OF s2(1), of m] obtain s' new where n:
      "exec p (dragging m ts) s2 = Inr s'" "\<not> isDragging s'" "calls s' = calls s2 @ new"
      "\<forall>c\<in>set new. \<not> isPressCall c"
      by blast
    have "exec p (dragging g (t # ts)) s = Inr s'" using st n(1) Moved by simp
    moreover have "calls s' = calls s @ (OnDrag m b (getBounds p s1) # new)"
      using n(3) s2(2) by simp
    moreover have "\<forall>c\<in>set (OnDrag m b (getBounds p s1) # new). \<not> isPressCall c"
      using n(4) by simp
    ultimately show ?thesis using n(2) by blast
  qed
qed

lemma press_not_dragRelease: "isPressCall c \<Longrightarrow> \<not> isDragRelease c"
  by (cases c) simp_all

lemma exec_pressing:
  assumes "\<not> isDragging s"
  shows "\<exists>s' new. exec p (pressing p long ts) s = Inr s' \<and> \<not> isDragging s' \<and>
           calls s' = calls s @ new \<and>
           \<not> (OnShortPressRelease \<in> set new \<and> (\<exists>c\<in>set new. isDragRelease c)) \<and>
           ((\<forall>m\<in>set (movements ts). \<not> shouldStartDrag p m) \<longrightarrow>
              (\<forall>c\<in>set new. \<not> isDragRelease c) \<and> OnRelease True \<notin> set new \<and>
              OnRelease False \<in> set new \<and>
              (OnShortPressRelease \<in> set new) = (\<not> long \<and> Held \<notin> set ts) \<and>
              (OnLongPress \<in> set new) = (\<not> long \<and> Held \<in> set ts))"
  using assms
proof (induction ts arbitrary: s long)
  case Nil
  then show ?case by (cases long) (simp_all add: handlePressOut_def Let_def)
next
  case (Cons t ts)
  show ?case
  proof (cases t)
    case Held
    show ?thesis
    proof (cases long)
      case True
      with Cons.IH [OF Cons.prems, of True] Held show ?thesis by simp
    next
      case False
      define s0 where "s0 = s\<lparr>calls := calls s @ [OnLongPress]\<rparr>"
      have "\<not> isDragging s0" using Cons.prems by (simp add: s0_def)
      from Cons.IH [OF this, of True] obtain s' new where n:
        "exec p (pressing p True ts) s0 = Inr s'" "\<not> isDragging s'" "calls s' = calls s0 @ new"
        "\<not> (OnShortPressRelease \<in> set new \<and> (\<exists>c\<in>set new. isDragRelease c))"
        "(\<forall>m\<in>set (movements ts). \<not> shouldStartDrag p m) \<longrightarrow>
           (\<forall>c\<in>set new. \<not> isDragRelease c) \<and> OnRelease True \<notin> set new \<and>
           OnRelease False \<in> set new \<and> OnShortPressRelease \<notin> set new \<and>
           OnLongPress \<notin> set new"
        by auto
      have "exec p (pressing p long (t # ts)) s = Inr s'"
        using Held False n(1) by (simp add: s0_def)
      moreover have "calls s' = calls s @ (OnLongPress # new)" using n(3) by (simp add: s0_def)
      moreover have "\<not> (OnShortPressRelease \<in> set (OnLongPress # new) \<and>
          (\<exists>c\<in>set (OnLongPress # new). isDragRelease c))"
        using n(4) by simp
      moreover have "(\<forall>m\<in>set (movements (t # ts)). \<not> shouldStartDrag p m) \<longrightarrow>
          (\<forall>c\<in>set (OnLongPress # new). \<not> isDragRelease c) \<and>
          OnRelease True \<notin> set (OnLongPress # new) \<and>
          OnRelease False \<in> set (OnLongPress # new) \<and>
          (OnShortPressRelease \<in> set (OnLongPress # new)) = (\<not> long \<and> Held \<notin> set (t # ts)) \<and>
          (OnLongPress \<in> set (OnLongPress # new)) = (\<not> long \<and> Held \<in> set (t # ts))"
        using n(5) Held False by simp
      ultimately show ?thesis using n(2) by blast
    qed
  next
    case (Moved m)
    show ?thesis
    proof (cases "shouldStartDrag p m")
      case False
      with Cons.IH [OF Cons.prems, of long] Moved show ?thesis by simp
    next
      case True
      define s1 where "s1 = onPanResponderGrant p \<lparr>dx = 0, dy = 0\<rparr> s"
      define s2 where "s2 = handlePressOut s1"
      have s1: "isDragging s1" "startBounds s1 \<noteq> None" "calls s1 = calls s"
        by (simp_all add: s1_def onPanResponderGrant_def setValue_def notifyListener_def Let_def)
      have s2: "startBounds s2 \<noteq> None" "calls s2 = calls s @ [OnPressOut]"
        using s1 by (simp_all add: s2_def handlePressOut_def Let_def)
      from exec_dragging [OF s2(1)] obtain s' new where n:
        "exec p (dragging \<lparr>dx = 0, dy = 0\<rparr> ts) s2 = Inr s'" "\<not> isDragging s'"
        "calls s' = calls s2 @ new" "\<forall>c\<in>set new. \<not> isPressCall c"
        by blast
      have "OnShortPressRelease \<notin> set new" using n(4) by fastforce
      then have "OnShortPressRelease \<notin> set (OnPressOut # new)" by simp
      moreover have "exec p (pressing p long (t # ts)) s = Inr s'"
        using True Moved n(1) by (simp add: s1_def s2_def)
      moreover have "calls s' = calls s @ (OnPressOut # new)" using n(3) s2(2) by simp
      moreover have "\<not> (\<forall>m\<in>set (movements (t # ts)). \<not> shouldStartDrag p m)"
        using True Moved by simp
      ultimately show ?thesis using n(2) by blast
    qed
  qed
qed

lemma exec_panning:
  assumes "\<not> isDragging s"
  shows "\<exists>s' new. exec p (panning p ts) s = Inr s' \<and> \<not> isDragging s' \<and>
           calls s' = calls s @ new \<and> (\<forall>c\<in>set new. \<not> isPressCall c) \<and>
           ((\<forall>m\<in>set (movements ts). \<not> shouldStartDrag p m) \<longrightarrow> new = [])"
  using assms
proof (induction ts)
  case Nil
  then show ?case by simp
next
  case (Cons t ts)
  show ?case
  proof (cases t)
    case Held
    with Cons show ?thesis by simp
  next
    case (Moved m)
    show ?thesis
    proof (cases "shouldStartDrag p m")
      case False
      with Cons Moved show ?thesis by simp
    next
      case True
      define s1 where "s1 = onPanResponderGrant p \<lparr>dx = 0, dy = 0\<rparr> s"
      have s1: "startBounds s1 \<noteq> None" "calls s1 = calls s"
        by (simp_all add: s1_def onPanResponderGrant_def setValue_def notifyListener_def Let_def)
      from exec_dragging [OF s1(1)] obtain s' new where n:
        "exec p (dragging \<lparr>dx = 0, dy = 0\<rparr> ts) s1 = Inr s'" "\<not> isDragging s'"
        "calls s' = calls s1 @ new" "\<forall>c\<in>set new. \<not> isPressCall c"
        by blast
      have "exec p (panning p (t # ts)) s = Inr s'"
        using True Moved n(1) by (simp add: s1_def)
      moreover have "calls s' = calls s @ new" using n(3) s1(2) by simp
      moreover have "\<not> (\<forall>m\<in>set (movements (t # ts)). \<not> shouldStartDrag p m)"
        using True Moved by simp
      ultimately show ?thesis using n(2,4) by blast
    qed
  qed
qed

lemma exec_gesture:
  assumes "\<not> isDragging s"
  shows "\<exists>s' new. exec p (gesture p ts) s = Inr s' \<and> \<not> isDragging s' \<and>
           calls s' = calls s @ new \<and>
           \<not> (OnShortPressRelease \<in> set new \<and> (\<exists>c\<in>set new. isDragRelease c)) \<and>
           (disabled p \<or> dragHandle p \<longrightarrow> (\<forall>c\<in>set new. \<not> isPressCall c)) \<and>
           ((\<forall>m\<in>set (movements ts). \<not> shouldStartDrag p m) \<longrightarrow>
              (\<forall>c\<in>set new. \<not> isDragRelease c) \<and> OnRelease True \<notin> set new \<and>
              (disabled p \<or> dragHandle p \<longrightarrow> new = []) \<and>
              (\<not> disabled p \<and> \<not> dragHandle p \<longrightarrow>
                 OnRelease False \<in> set new \<and>
                 (OnShortPressRelease \<in> set new) = (Held \<notin> set ts) \<and>
                 (OnLongPress \<in> set new) = (Held \<in> set ts)))"
proof (cases "disabled p \<or> dragHandle p")
  case True
  from exec_panning [OF assms] obtain s' new where n:
    "exec p (panning p ts) s = Inr s'" "\<not> isDragging s'" "calls s' = calls s @ new"
    "\<forall>c\<in>set new. \<not> isPressCall c"
    "(\<forall>m\<in>set (movements ts). \<not> shouldStartDrag p m) \<longrightarrow> new = []"
    by blast
  have "exec p (gesture p ts) s = Inr s'" using n(1) True by (simp add: gesture_def)
  moreover have "OnShortPressRelease \<notin> set new" using n(4) by fastforce
  moreover have "(\<forall>m\<in>set (movements ts). \<not> shouldStartDrag p m) \<longrightarrow>
      (\<forall>c\<in>set new. \<not> isDragRelease c) \<and> OnRelease True \<notin> set new \<and> new = []"
    using n(5) by simp
  ultimately show ?thesis using n(2,3,4) True by blast
next
  case False
  define s0 where "s0 = s\<lparr>calls := calls s @ [OnPressIn]\<rparr>"
  have "\<not> isDragging s0" using assms by (simp add: s0_def)
  from exec_pressing [OF this, of p False ts] obtain s' new where n:
    "exec p (pressing p False ts) s0 = Inr s'" "\<not> isDragging s'" "calls s' = calls s0 @ new"
    "\<not> (OnShortPressRelease \<in> set new \<and> (\<exists>c\<in>set new. isDragRelease c))"
    "(\<forall>m\<in>set (movements ts). \<not> shouldStartDrag p m) \<longrightarrow>
       (\<forall>c\<in>set new. \<not> isDragRelease c) \<and> OnRelease True \<notin> set new \<and>
       OnRelease False \<in> set new \<and>
       (OnShortPressRelease \<in> set new) = (Held \<notin> set ts) \<and>
       (OnLongPress \<in> set new) = (Held \<in> set ts)"
    by auto
  have "exec p (gesture p ts) s = Inr s'" using n(1) False by (simp add: gesture_def s0_def)
  moreover have "calls s' = calls s @ (OnPressIn # new)" using n(3) by (simp add: s0_def)
  moreover have "\<not> (OnShortPressRelease \<in> set (OnPressIn # new) \<and>
      (\<exists>c\<in>set (OnPressIn # new). isDragRelease c))"
    using n(4) by simp
  moreover have "(\<forall>m\<in>set (movements ts). \<not> shouldStartDrag p m) \<longrightarrow>
      (\<forall>c\<in>set (OnPressIn # new). \<not> isDragRelease c) \<and>
      OnRelease True \<notin> set (OnPressIn # new) \<and>
      OnRelease False \<in> set (OnPressIn # new) \<and>
      (OnShortPressRelease \<in> set (OnPressIn # new)) = (Held \<notin> set ts) \<and>
      (OnLongPress \<in> set (OnPressIn # new)) = (Held \<in> set ts)"
    using n(5) by simp
  ultimately show ?thesis using n(2) False by blast
qed

lemma exec_gestures_idle:
  "\<not> isDragging s \<Longrightarrow>
   \<exists>s'. exec p (concat (map (gesture p) prior)) s = Inr s' \<and> \<not> isDragging s'"
proof (induction prior arbitrary: s)
  case Nil
  then show ?case by simp
next
  case (Cons ts prior)
  from exec_gesture [OF Cons.prems] obtain s1 where
    s1: "exec p (gesture p ts) s = Inr s1" "\<not> isDragging s1"
    by blast
  from Cons.IH [OF s1(2)] obtain s' where
    "exec p (concat (map (gesture p) prior)) s1 = Inr s'" "\<not> isDragging s'"
    by blast
  with s1(1) show ?case by (auto simp: exec_append)
qed

text \<open>
  C9, as the code has it. After any earlier gestures, every gesture runs without an
  exception and never invokes both \<open>onShortPressRelease\<close> and \<open>onDragRelease\<close>. When its
  movements all stay within the threshold (as the total movement \<open>{1, 1}\<close> does), it
  invokes neither \<open>onDragRelease\<close> nor \<open>onRelease(event, true)\<close>; on a component that is
  not disabled and has no drag handle it invokes \<open>onRelease(event, false)\<close>, and
  \<open>onShortPressRelease\<close> exactly when the touch ends before the long-press delay
  (otherwise \<open>onLongPress\<close>); on a disabled component, or with a drag handle, it
  invokes nothing, and no gesture there invokes a press callback.
\<close>

theorem tap_is_not_drag:
  "\<exists>s s' new. run p (concat (map (gesture p) prior)) = Inr s \<and>
     exec p (gesture p ts) s = Inr s' \<and> calls s' = calls s @ new \<and>
     \<not> (OnShortPressRelease \<in> set new \<and> (\<exists>c\<in>set new. isDragRelease c)) \<and>
     (disabled p \<or> dragHandle p \<longrightarrow> (\<forall>c\<in>set new. \<not> isPressCall c)) \<and>
     ((\<forall>m\<in>set (movements ts). \<bar>dx m\<bar> \<le> 2 \<and> \<bar>dy m\<bar> \<le> 2) \<longrightarrow>
        (\<forall>c\<in>set new. \<not> isDragRelease c) \<and> OnRelease True \<notin> set new \<and>
        (disabled p \<or> dragHandle p \<longrightarrow> new = []) \<and>
        (\<not> disabled p \<and> \<not> dragHandle p \<longrightarrow>
           OnRelease False \<in> set new \<and>
           (OnShortPressRelease \<in> set new) = (Held \<notin> set ts) \<and>
           (OnLongPress \<in> set new) = (Held \<in> set ts)))"
proof -
  have "\<not> isDragging (mount p)" by (simp add: component_defs Let_def)
  from exec_gestures_idle [OF this] obtain s where
    s: "run p (concat (map (gesture p) prior)) = Inr s" "\<not> isDragging s"
    unfolding run_def by blast
  from exec_gesture [OF s(2)] obtain s' new where n:
    "exec p (gesture p ts) s = Inr s'" "calls s' = calls s @ new"
    "\<not> (OnShortPressRelease \<in> set new \<and> (\<exists>c\<in>set new. isDragRelease c))"
    "disabled p \<or> dragHandle p \<longrightarrow> (\<forall>c\<in>set new. \<not> isPressCall c)"
    "(\<forall>m\<in>set (movements ts). \<not> shouldStartDrag p m) \<longrightarrow>
       (\<forall>c\<in>set new. \<not> isDragRelease c) \<and> OnRelease True \<notin> set new \<and>
       (disabled p \<or> dragHandle p \<longrightarrow> new = []) \<and>
       (\<not> disabled p \<and> \<not> dragHandle p \<longrightarrow>
          OnRelease False \<in> set new \<and>
          (OnShortPressRelease \<in> set new) = (Held \<notin> set ts) \<and>
          (OnLongPress \<in> set new) = (Held \<in> set ts))"
    by blast
  have "(\<forall>m\<in>set (movements ts). \<bar>dx m\<bar> \<le> 2 \<and> \<bar>dy m\<bar> \<le> 2) \<longrightarrow>
       (\<forall>c\<in>set new. \<not> isDragRelease c) \<and> OnRelease True \<notin> set new \<and>
       (disabled p \<or> dragHandle p \<longrightarrow> new = []) \<and>
       (\<not> disabled p \<and> \<not> dragHandle p \<longrightarrow>
          OnRelease False \<in> set new \<and>
          (OnShortPressRelease \<in> set new) = (Held \<notin> set ts) \<and>
          (OnLongPress \<in> set new) = (Held \<in> set ts))"
  proof
    assume "\<forall>m\<in>set (movements ts). \<bar>dx m\<bar> \<le> 2 \<and> \<bar>dy m\<bar> \<le> 2"
    then have "\<forall>m\<in>set (movements ts). \<not> shouldStartDrag p m" by (simp add: small_not_start)
    with n(5) show "(\<forall>c\<in>set new. \<not> isDragRelease c) \<and> OnRelease True \<notin> set new \<and>
       (disabled p \<or> dragHandle p \<longrightarrow> new = []) \<and>
       (\<not> disabled p \<and> \<not> dragHandle p \<longrightarrow>
          OnRelease False \<in> set new \<and>
          (OnShortPressRelease \<in> set new) = (Held \<notin> set ts) \<and>
          (OnLongPress \<in> set new) = (Held \<in> set ts))"
      by (rule mp)
  qed
  with s(1) n(1,2,3,4) show ?thesis by blast
qed

text \<open>
  The theorem above at the default props: after a drag, a press and release with the
  movement \<open>{1, 1}\<close> adds press-in, press-out, \<open>onRelease(event, false)\<close> and the short press.
\<close>

theorem tap_is_not_drag_witness:
  "\<bar>dx \<lparr>dx = 1, dy = 1\<rparr>\<bar> \<le> 2 \<and> \<bar>dy \<lparr>dx = 1, dy = 1\<rparr>\<bar> \<le> 2 \<and>
   \<not> disabled defaultProps \<and> \<not> dragHandle defaultProps \<and>
   movements [Moved \<lparr>dx = 1, dy = 1\<rparr>] = [\<lparr>dx = 1, dy = 1\<rparr>] \<and>
   Held \<notin> set [Moved \<lparr>dx = 1, dy = 1\<rparr>] \<and>
   run defaultProps (concat (map (gesture defaultProps) [[Moved \<lparr>dx = 5, dy = 0\<rparr>]])) =
     Inr \<lparr>pan = \<lparr>animValue = (0, 0), animOffset = (0, 0), listening = True, spring = None\<rparr>,
          offsetFromStart = (0, 0), childSize = (36, 36),
          startBounds = Some \<lparr>left = 0, top' = 0, right = 36, bottom = 36\<rparr>,
          isDragging = False,
          calls = [OnPressIn, OnPressOut,
                   OnDragRelease \<lparr>dx = 0, dy = 0\<rparr>
                     (Some \<lparr>left = 0, top' = 0, right = 36, bottom = 36\<rparr>)
                     \<lparr>left = 0, top' = 0, right = 36, bottom = 36\<rparr>,
                   OnRelease True]\<rparr> \<and>
   exec defaultProps (gesture defaultProps [Moved \<lparr>dx = 1, dy = 1\<rparr>])
     \<lparr>pan = \<lparr>animValue = (0, 0), animOffset = (0, 0), listening = True, spring = None\<rparr>,
      offsetFromStart = (0, 0), childSize = (36, 36),
      startBounds = Some \<lparr>left = 0, top' = 0, right = 36, bottom = 36\<rparr>,
      isDragging = False,
      calls = [OnPressIn, OnPressOut,
               OnDragRelease \<lparr>dx = 0, dy = 0\<rparr>
                 (Some \<lparr>left = 0, top' = 0, right = 36, bottom = 36\<rparr>)
                 \<lparr>left = 0, top' = 0, right = 36, bottom = 36\<rparr>,
               OnRelease True]\<rparr> =
     Inr \<lparr>pan = \<lparr>animValue = (0, 0), animOffset = (0, 0), listening = True, spring = None\<rparr>,
          offsetFromStart = (0, 0), childSize = (36, 36),
          startBounds = Some \<lparr>left = 0, top' = 0, right = 36, bottom = 36\<rparr>,
          isDragging = False,
          calls = [OnPressIn, OnPressOut,
                   OnDragRelease \<lparr>dx = 0, dy = 0\<rparr>
                     (Some \<lparr>left = 0, top' = 0, right = 36, bottom = 36\<rparr>)
                     \<lparr>left = 0, top' = 0, right = 36, bottom = 36\<rparr>,
                   OnRelease True] @
                  [OnPressIn, OnPressOut, OnRelease False, OnShortPressRelease]\<rparr>"
  using tap_is_not_drag [of defaultProps "[[Moved \<lparr>dx = 5, dy = 0\<rparr>]]" "[Moved \<lparr>dx = 1, dy = 1\<rparr>]"]
  by (simp add: run_def gesture_def shouldStartDrag_def component_defs defaultProps_def Let_def)

text \<open>
  C9 as stated fails on a disabled component, with a drag handle, and for a long press:
  a press and release with the total movement \<open>{1, 1}\<close> invokes no callback at all when
  the component is disabled or has a drag handle, and on the default component a touch
  held past the long-press delay invokes \<open>onLongPress\<close> and \<open>onRelease(event, false)\<close>
  but not \<open>onShortPressRelease\<close>.
\<close>

theorem tap_is_not_drag_counterexample:
  "run (defaultProps\<lparr>disabled := True\<rparr>)
      (gesture (defaultProps\<lparr>disabled := True\<rparr>) [Moved \<lparr>dx = 1, dy = 1\<rparr>]) =
     Inr (mount (defaultProps\<lparr>disabled := True\<rparr>)) \<and>
   calls (mount (defaultProps\<lparr>disabled := True\<rparr>)) = [] \<and>
   run (defaultProps\<lparr>dragHandle := True\<rparr>)
      (gesture (defaultProps\<lparr>dragHandle := True\<rparr>) [Moved \<lparr>dx = 1, dy = 1\<rparr>]) =
     Inr (mount (defaultProps\<lparr>dragHandle := True\<rparr>)) \<and>
   calls (mount (defaultProps\<lparr>dragHandle := True\<rparr>)) = [] \<and>
   run defaultProps (gesture defaultProps [Moved \<lparr>dx = 1, dy = 1\<rparr>, Held]) =
     Inr ((mount defaultProps)
           \<lparr>calls := [OnPressIn, OnLongPress, OnPressOut, OnRelease False]\<rparr>)"
  by (simp add: run_def gesture_def shouldStartDrag_def component_defs defaultProps_def Let_def)

end
